theory Spec2Isabelle
  imports Complex_Main "HOL-Library.Sublist"
begin

section \<open>Strings and JSON values of the front end\<close>

text \<open>
  A JavaScript string is a sequence of UTF-16 code units. It is modelled as a list of
  natural numbers, one per code unit, so that \<open>trim\<close>, \<open>split\<close> and
  \<open>startsWith\<close> see exactly the units the program sees. \<open>ascii\<close> turns an
  ASCII literal into such a string.
\<close>

type_synonym jsstring = "nat list"

definition ascii :: "string \<Rightarrow> jsstring" where
  "ascii s = map of_char s"

section \<open>Tasks and task navigation (App.tsx, lines 9-20, 129-130, 445-455)\<close>

text \<open>
  The type \<open>Task\<close>. Its properties \<open>id\<close> and \<open>type\<close> are named \<open>tid\<close> and \<open>ttype\<close>
  here; an optional property is an \<open>option\<close>.
\<close>

datatype task_type = Theory | Coding | Sql

record Task =
  tid :: jsstring
  ttype :: task_type
  title :: jsstring
  description :: "jsstring option"
  description_for_candidate :: "jsstring option"
  max_points :: "int option"
  tests_id :: "jsstring option"
  sql_scenario_id :: "jsstring option"
  language :: "jsstring option"
  hints_allowed :: "bool option"

text \<open>
  \<open>const currentTask = orderedTasks[currentTaskIndex] || null\<close>: an index outside the
  array reads \<open>undefined\<close>, which \<open>|| null\<close> turns into \<open>null\<close> (here \<open>None\<close>);
  a task object is always truthy.
\<close>

definition currentTask :: "Task list \<Rightarrow> int \<Rightarrow> Task option" where
  "currentTask orderedTasks currentTaskIndex =
     (if 0 \<le> currentTaskIndex \<and> currentTaskIndex < int (length orderedTasks)
      then Some (orderedTasks ! nat currentTaskIndex) else None)"

text \<open>
  \<open>goNextTask\<close> and \<open>goPrevTask\<close> (lines 445-455). The test reads the
  \<open>currentTaskIndex\<close> and the \<open>orderedTasks\<close> that the render which made the handler
  captured; the update \<open>(i) => i + 1\<close> (or \<open>i - 1\<close>) acts on the index the state holds
  when it is applied, the last argument \<open>i\<close> here. A handler called from the render of
  the current state has both equal. The JavaScript \<open>orderedTasks.length - 1\<close> is \<open>-1\<close>
  for the empty array, hence the integers.
\<close>

definition goNextTask :: "Task list \<Rightarrow> int \<Rightarrow> int \<Rightarrow> int" where
  "goNextTask orderedTasks currentTaskIndex i =
     (if currentTaskIndex < int (length orderedTasks) - 1 then i + 1 else i)"

definition goPrevTask :: "int \<Rightarrow> int \<Rightarrow> int" where
  "goPrevTask currentTaskIndex i = (if currentTaskIndex > 0 then i - 1 else i)"

text \<open>The bound on the index: \<open>0 \<le> i \<le> max(0, length - 1)\<close>.\<close>

definition index_in_bounds :: "Task list \<Rightarrow> int \<Rightarrow> bool" where
  "index_in_bounds orderedTasks i \<longleftrightarrow> 0 \<le> i \<and> i \<le> max 0 (int (length orderedTasks) - 1)"

text \<open>The lookup stays inside the array: \<open>0 \<le> i < length\<close>.\<close>

definition lookup_inside :: "Task list \<Rightarrow> int \<Rightarrow> bool" where
  "lookup_inside orderedTasks i \<longleftrightarrow> 0 \<le> i \<and> i < int (length orderedTasks)"

section \<open>The chat state and the model stream (App.tsx, lines 39-44, 97-122, 272-320)\<close>

text \<open>
  The value of a property of a parsed event: absent (\<open>undefined\<close>), \<open>null\<close> or a
  string. These are the values the stream protocol gives \<open>type\<close>, \<open>content\<close> and
  \<open>detail\<close>; numbers, booleans and nested objects are outside the model.
\<close>

datatype jv = JUndefined | JNull | JString jsstring

fun truthy :: "jv \<Rightarrow> bool" where
  "truthy (JString s) = (s \<noteq> [])"
| "truthy _ = False"

text \<open>String conversion, as string concatenation and template literals apply it.\<close>

fun to_str :: "jv \<Rightarrow> jsstring" where
  "to_str JUndefined = ascii ''undefined''"
| "to_str JNull = ascii ''null''"
| "to_str (JString s) = s"

definition js_or :: "jv \<Rightarrow> jv \<Rightarrow> jv" where
  "js_or a b = (if truthy a then a else b)"

text \<open>The three properties of a parsed event that the program reads.\<close>

record event =
  etype :: jv
  content :: jv
  detail :: jv

text \<open>The type \<open>Message\<close>; its property \<open>text\<close> is named \<open>mtext\<close> here.\<close>

datatype sender = Candidate | Model | System

record Message =
  sender :: sender
  mtext :: jsstring
  created_at :: "jsstring option"
  task_id :: "jsstring option"

text \<open>
  The state of the component \<open>App\<close> (lines 98-122), as far as the functions modelled
  here read or write it.
\<close>

datatype View = Landing | SessionView | Admin

record app =
  view :: View
  selectedRole :: "int option"
  selectedScenario :: "int option"
  sessionId :: "jsstring option"
  messages :: "Message list"
  streamingReply :: jsstring
  streaming :: bool
  chatInput :: jsstring
  loading :: bool
  status :: "jsstring option"
  currentTaskIndex :: int

text \<open>\<open>pushMessage = (msg) => setMessages((prev) => [...prev, msg])\<close>\<close>

definition pushMessage :: "Message \<Rightarrow> app \<Rightarrow> app" where
  "pushMessage msg s = s\<lparr>messages := messages s @ [msg]\<rparr>"

definition system_message :: "jsstring \<Rightarrow> Message" where
  "system_message t = \<lparr>sender = System, mtext = t, created_at = None, task_id = None\<rparr>"

definition model_message :: "jsstring \<Rightarrow> Message" where
  "model_message t = \<lparr>sender = Model, mtext = t, created_at = None, task_id = None\<rparr>"

text \<open>The string literals of the source, as code units (the Cyrillic text is not ASCII).\<close>

definition no_body_text :: jsstring where
  "no_body_text =
     [1053, 1077, 1090, 32, 98, 111, 100, 121, 32, 1091, 32, 1086, 1090, 1074, 1077, 1090, 1072]"

definition model_error_prefix :: jsstring where
  "model_error_prefix =
     [1054, 1096, 1080, 1073, 1082, 1072, 32, 1084, 1086, 1076, 1077, 1083, 1080, 58, 32]"

definition stream_failed_prefix :: jsstring where
  "stream_failed_prefix =
     [1057, 1090, 1088, 1080, 1084, 32, 1085, 1077, 32, 1091, 1076, 1072, 1083, 1089, 1103, 58, 32]"

definition model_unavailable_prefix :: jsstring where
  "model_unavailable_prefix =
     [1052, 1086, 1076, 1077, 1083, 1100, 32, 1085, 1077, 1076, 1086, 1089, 1090, 1091, 1087,
      1085, 1072, 58, 32]"

definition session_created_text :: jsstring where
  "session_created_text =
     [1057, 1077, 1089, 1089, 1080, 1103, 32, 1089, 1086, 1079, 1076, 1072, 1085, 1072, 46, 32,
      1052, 1086, 1076, 1077, 1083, 1100, 32, 1089, 1077, 1081, 1095, 1072, 1089, 32, 1087, 1088,
      1077, 1076, 1089, 1090, 1072, 1074, 1080, 1090, 1089, 1103, 32, 1080, 32, 1086, 1073, 1086,
      1079, 1085, 1072, 1095, 1080, 1090, 32, 1087, 1083, 1072, 1085, 46]"

definition choose_role_text :: jsstring where
  "choose_role_text =
     [1042, 1099, 1073, 1077, 1088, 1080, 1090, 1077, 32, 1088, 1086, 1083, 1100, 32, 1080, 32,
      1089, 1094, 1077, 1085, 1072, 1088, 1080, 1081]"

definition session_active_text :: jsstring where
  "session_active_text =
     [1057, 1077, 1089, 1089, 1080, 1103, 32, 1072, 1082, 1090, 1080, 1074, 1085, 1072]"

subsection \<open>String operations used by the stream consumer\<close>

text \<open>
  The code units \<open>String.prototype.trim\<close> removes: the WhiteSpace and LineTerminator
  productions of ECMAScript.
\<close>

definition is_space :: "nat \<Rightarrow> bool" where
  "is_space c \<longleftrightarrow>
     c \<in> {9, 10, 11, 12, 13, 32, 160, 5760, 8232, 8233, 8239, 8287, 12288, 65279}
     \<or> (8192 \<le> c \<and> c \<le> 8202)"

definition trim :: "jsstring \<Rightarrow> jsstring" where
  "trim s = rev (dropWhile is_space (rev (dropWhile is_space s)))"

definition startsWith :: "jsstring \<Rightarrow> jsstring \<Rightarrow> bool" where
  "startsWith s p \<longleftrightarrow> take (length p) s = p"

fun cons_first :: "nat \<Rightarrow> jsstring list \<Rightarrow> jsstring list" where
  "cons_first c (p # ps) = (c # p) # ps"
| "cons_first c [] = [ [c] ]"

text \<open>
  \<open>buffer.split("\n\n")\<close>: the pieces between the leftmost, non-overlapping occurrences
  of two line feeds (code unit 10); always at least one piece.
\<close>

fun split_blank :: "jsstring \<Rightarrow> jsstring list" where
  "split_blank [] = [ [] ]"
| "split_blank [c] = [ [c] ]"
| "split_blank (c # d # cs) =
     (if c = 10 \<and> d = 10 then [] # split_blank cs
      else cons_first c (split_blank (d # cs)))"

text \<open>\<open>parts.pop() || ""\<close>: the last piece; \<open>undefined\<close> (no piece) becomes \<open>""\<close>.\<close>

definition pop_or_empty :: "jsstring list \<Rightarrow> jsstring" where
  "pop_or_empty parts = (if parts = [] then [] else last parts)"

subsection \<open>One frame\<close>

text \<open>
  The variables of one run of \<open>streamModel\<close> that the frames act on: the local
  \<open>accumulated\<close> and the component state.
\<close>

record turn =
  accumulated :: jsstring
  ui :: app

text \<open>
  Lines 292-294: a frame that does not start with \<open>data:\<close> after trimming, or whose
  payload is empty, is skipped; otherwise the payload is what \<open>JSON.parse\<close> receives.
\<close>

definition frame_payload :: "jsstring \<Rightarrow> jsstring option" where
  "frame_payload part =
     (if \<not> startsWith (trim part) (ascii ''data:'') then None
      else let raw = trim (drop 5 (trim part)) in if raw = [] then None else Some raw)"

text \<open>Lines 296-308: the three tests on \<open>data.type\<close>, in the order of the source.\<close>

definition on_token :: "event \<Rightarrow> turn \<Rightarrow> turn" where
  "on_token data t =
     (if etype data = JString (ascii ''token'')
      then t\<lparr>accumulated := accumulated t @ to_str (content data),
             ui := (ui t)\<lparr>streamingReply := streamingReply (ui t) @ to_str (content data)\<rparr>\<rparr>
      else t)"

definition on_error :: "event \<Rightarrow> turn \<Rightarrow> turn" where
  "on_error data t =
     (if etype data = JString (ascii ''error'')
      then t\<lparr>ui := pushMessage
               (system_message (model_error_prefix @ to_str (js_or (detail data) (content data))))
               (ui t)\<rparr>
      else t)"

definition on_done :: "event \<Rightarrow> turn \<Rightarrow> turn" where
  "on_done data t =
     (if etype data = JString (ascii ''done'')
      then (if truthy (content data)
            then t\<lparr>accumulated := to_str (content data),
                   ui := (ui t)\<lparr>streamingReply := to_str (content data)\<rparr>\<rparr>
            else t)
      else t)"

definition apply_event :: "event \<Rightarrow> turn \<Rightarrow> turn" where
  "apply_event data t = on_done data (on_error data (on_token data t))"

text \<open>
  The body of the \<open>for\<close> loop. \<open>parse raw\<close> stands for \<open>JSON.parse(raw)\<close> and the
  reading of the three properties: \<open>Inr\<close> the event, \<open>Inl\<close> the message of the exception
  thrown. The first component of the result is the exception that leaves the loop, if any.
\<close>

definition handle_part ::
  "(jsstring \<Rightarrow> jsstring + event) \<Rightarrow> jsstring \<Rightarrow> turn \<Rightarrow> jsstring option \<times> turn" where
  "handle_part parse part t =
     (case frame_payload part of
        None \<Rightarrow> (None, t)
      | Some raw \<Rightarrow>
          (case parse raw of
             Inl m \<Rightarrow> (Some m, t)
           | Inr data \<Rightarrow> (None, apply_event data t)))"

fun handle_parts ::
  "(jsstring \<Rightarrow> jsstring + event) \<Rightarrow> jsstring list \<Rightarrow> turn \<Rightarrow> jsstring option \<times> turn" where
  "handle_parts parse [] t = (None, t)"
| "handle_parts parse (part # parts) t =
     (case handle_part parse part t of
        (Some m, t') \<Rightarrow> (Some m, t')
      | (None, t') \<Rightarrow> handle_parts parse parts t')"

subsection \<open>The read loop and \<open>streamModel\<close>\<close>

text \<open>
  How the body of the response ends: \<open>reader.read()\<close> resolves with \<open>done\<close>, or rejects
  with an error of the given message. The chunks before that are finitely many.
\<close>

datatype ending = EndOfStream | ReadFails jsstring

text \<open>
  What \<open>fetch\<close> gives: it rejects, or the response has no body, or the body delivers
  byte chunks.
\<close>

datatype response = FetchFails jsstring | NoBody | Body "nat list list" ending

text \<open>
  Lines 285-310. \<open>dec\<close> stands for \<open>decoder.decode(value, {stream: true})\<close>: from the
  decoder's state and a chunk of bytes, the text decoded and the new state.
\<close>

fun read_loop ::
  "(jsstring \<Rightarrow> jsstring + event) \<Rightarrow> ('d \<Rightarrow> nat list \<Rightarrow> jsstring \<times> 'd) \<Rightarrow>
   nat list list \<Rightarrow> ending \<Rightarrow> jsstring \<Rightarrow> 'd \<Rightarrow> turn \<Rightarrow> jsstring option \<times> turn" where
  "read_loop parse dec [] EndOfStream buffer d t = (None, t)"
| "read_loop parse dec [] (ReadFails m) buffer d t = (Some m, t)"
| "read_loop parse dec (v # rest) e buffer d t =
     (let (txt, d') = dec d v;
          parts = split_blank (buffer @ txt);
          buffer' = pop_or_empty parts
      in case handle_parts parse (butlast parts) t of
           (Some m, t') \<Rightarrow> (Some m, t')
         | (None, t') \<Rightarrow> read_loop parse dec rest e buffer' d' t')"

text \<open>\<open>!sessionId\<close>: \<open>null\<close> and the empty string are falsy.\<close>

definition no_session :: "jsstring option \<Rightarrow> bool" where
  "no_session sid \<longleftrightarrow> sid = None \<or> sid = Some []"

text \<open>Lines 276-278.\<close>

definition begin_turn :: "app \<Rightarrow> turn" where
  "begin_turn s = \<lparr>accumulated = [], ui = s\<lparr>streaming := True, streamingReply := []\<rparr>\<rparr>"

text \<open>Lines 280-310: the \<open>try\<close> block.\<close>

definition try_block ::
  "(jsstring \<Rightarrow> jsstring + event) \<Rightarrow> ('d \<Rightarrow> nat list \<Rightarrow> jsstring \<times> 'd) \<Rightarrow> 'd \<Rightarrow>
   response \<Rightarrow> turn \<Rightarrow> jsstring option \<times> turn" where
  "try_block parse dec d0 resp t =
     (case resp of
        FetchFails m \<Rightarrow> (Some m, t)
      | NoBody \<Rightarrow> (Some no_body_text, t)
      | Body chunks e \<Rightarrow> read_loop parse dec chunks e [] d0 t)"

text \<open>Lines 311-312: the \<open>catch\<close> block.\<close>

definition catch_block :: "jsstring option \<times> turn \<Rightarrow> turn" where
  "catch_block r =
     (case r of
        (None, t) \<Rightarrow> t
      | (Some m, t) \<Rightarrow> t\<lparr>ui := pushMessage (system_message (stream_failed_prefix @ m)) (ui t)\<rparr>)"

text \<open>Lines 313-319: the \<open>finally\<close> block.\<close>

definition finally_block :: "turn \<Rightarrow> app" where
  "finally_block t =
     (let s = (ui t)\<lparr>streaming := False\<rparr>
      in if accumulated t \<noteq> []
         then (pushMessage (model_message (accumulated t)) s)\<lparr>streamingReply := []\<rparr>
         else s)"

text \<open>
  \<open>streamModel\<close>. \<open>sid\<close> is the \<open>sessionId\<close> the closure captured, \<open>d0\<close> the state of a
  new \<open>TextDecoder\<close>.
\<close>

definition streamModel ::
  "(jsstring \<Rightarrow> jsstring + event) \<Rightarrow> ('d \<Rightarrow> nat list \<Rightarrow> jsstring \<times> 'd) \<Rightarrow> 'd \<Rightarrow>
   jsstring option \<Rightarrow> response \<Rightarrow> app \<Rightarrow> app" where
  "streamModel parse dec d0 sid resp s =
     (if no_session sid then s
      else finally_block (catch_block (try_block parse dec d0 resp (begin_turn s))))"

subsection \<open>Streams whose frames are lines ending in a blank line\<close>

text \<open>
  The contract of a streaming decoder: decoding nothing gives nothing, and decoding a
  chunk in two pieces gives the text of the whole chunk and the same final state.
\<close>

definition streaming_decoder :: "('d \<Rightarrow> nat list \<Rightarrow> jsstring \<times> 'd) \<Rightarrow> bool" where
  "streaming_decoder dec \<longleftrightarrow>
     (\<forall>d. dec d [] = ([], d)) \<and>
     (\<forall>d a b. dec d (a @ b) =
        (case dec d a of (x, d1) \<Rightarrow> (case dec d1 b of (y, d2) \<Rightarrow> (x @ y, d2))))"

text \<open>
  The events of a list of frames: a frame with a payload that parses gives one event,
  any other frame none.
\<close>

definition events_of :: "(jsstring \<Rightarrow> jsstring + event) \<Rightarrow> jsstring list \<Rightarrow> event list" where
  "events_of parse frames =
     concat (map (\<lambda>f. case frame_payload f of
                          None \<Rightarrow> []
                        | Some raw \<Rightarrow> (case parse raw of Inl m \<Rightarrow> [] | Inr ev \<Rightarrow> [ev]))
                 frames)"

definition apply_events :: "event list \<Rightarrow> turn \<Rightarrow> turn" where
  "apply_events evs t = foldl (\<lambda>t ev. apply_event ev t) t evs"

text \<open>
  A well-formed stream of the model turn: the decoded text of all the chunks is a
  sequence of frames, each a single line followed by a blank line (two line feeds), and
  the payload of every \<open>data:\<close> frame parses.
\<close>

definition well_formed_stream ::
  "(jsstring \<Rightarrow> jsstring + event) \<Rightarrow> ('d \<Rightarrow> nat list \<Rightarrow> jsstring \<times> 'd) \<Rightarrow> 'd \<Rightarrow>
   nat list list \<Rightarrow> jsstring list \<Rightarrow> bool" where
  "well_formed_stream parse dec d0 chunks frames \<longleftrightarrow>
     streaming_decoder dec \<and>
     fst (dec d0 (concat chunks)) = concat (map (\<lambda>f. f @ [10, 10]) frames) \<and>
     (\<forall>f \<in> set frames. 10 \<notin> set f \<and>
        (case frame_payload f of None \<Rightarrow> True | Some raw \<Rightarrow> \<not> isl (parse raw)))"

text \<open>What leaves the read loop once the frames are handled.\<close>

definition after_frames :: "ending \<Rightarrow> jsstring option \<times> turn \<Rightarrow> jsstring option \<times> turn" where
  "after_frames e r =
     (case r of
        (Some m, t) \<Rightarrow> (Some m, t)
      | (None, t) \<Rightarrow> (case e of EndOfStream \<Rightarrow> (None, t) | ReadFails m \<Rightarrow> (Some m, t)))"




subsection \<open>Sample inputs\<close>

text \<open>A decoder for ASCII bytes: every byte is one code unit, and there is no state.\<close>

definition ascii_decoder :: "unit \<Rightarrow> nat list \<Rightarrow> jsstring \<times> unit" where
  "ascii_decoder d bytes = (bytes, d)"

text \<open>\<open>JSON.parse\<close> on the payloads of the sample streams; any other text is refused.\<close>

definition token_event :: "jsstring \<Rightarrow> event" where
  "token_event c = \<lparr>etype = JString (ascii ''token''), content = JString c, detail = JUndefined\<rparr>"

definition done_event :: "jsstring \<Rightarrow> event" where
  "done_event c = \<lparr>etype = JString (ascii ''done''), content = JString c, detail = JUndefined\<rparr>"

definition error_event :: "jsstring \<Rightarrow> event" where
  "error_event c =
     \<lparr>etype = JString (ascii ''error''), content = JUndefined, detail = JString c\<rparr>"

definition tool_call_event :: event where
  "tool_call_event =
     \<lparr>etype = JString (ascii ''tool_call''), content = JUndefined, detail = JUndefined\<rparr>"

definition sample_parse :: "jsstring \<Rightarrow> jsstring + event" where
  \<open>sample_parse raw =
     (if raw = ascii ''{"type":"token","content":"Hi"}'' then Inr (token_event (ascii ''Hi''))
      else if raw = ascii ''{"type":"done","content":"Hi!"}'' then Inr (done_event (ascii ''Hi!''))
      else if raw = ascii ''{"type":"done","content":""}'' then Inr (done_event [])
      else if raw = ascii ''{"type":"tool_call","name":"rag_search"}'' then Inr tool_call_event
      else if raw = ascii ''{"type":"error","detail":"boom"}''
        then Inr (error_event (ascii ''boom''))
      else Inl (ascii ''Unexpected token''))\<close>

definition sample_app :: app where
  "sample_app =
     \<lparr>view = SessionView, selectedRole = Some 1, selectedScenario = Some 101,
      sessionId = Some (ascii ''7''), messages = [system_message session_created_text],
      streamingReply = [], streaming = False, chatInput = ascii ''hello'', loading = False,
      status = Some session_active_text, currentTaskIndex = 0\<rparr>"

definition sample_task :: "jsstring \<Rightarrow> task_type \<Rightarrow> int \<Rightarrow> Task" where
  "sample_task i ty p =
     \<lparr>tid = i, ttype = ty, title = i, description = None, description_for_candidate = None,
      max_points = Some p, tests_id = None, sql_scenario_id = None, language = None,
      hints_allowed = None\<rparr>"

definition sample_tasks :: "Task list" where
  "sample_tasks = [sample_task (ascii ''T1'') Theory 5, sample_task (ascii ''C1'') Coding 10]"

subsection \<open>The notices a list of events appends\<close>

text \<open>The system messages that the \<open>error\<close> events of a list push, in order.\<close>

definition error_notices :: "event list \<Rightarrow> Message list" where
  "error_notices evs =
     map (\<lambda>ev. system_message (model_error_prefix @ to_str (js_or (detail ev) (content ev))))
         (filter (\<lambda>ev. etype ev = JString (ascii ''error'')) evs)"

section \<open>Sending a chat message and starting a session (App.tsx, lines 322-368)\<close>

text \<open>How a call of \<open>fetchJson\<close> ends: it resolves, or throws an error with a message.\<close>

datatype http = Resolves | Rejects jsstring

text \<open>
  \<open>sendChatMessage\<close>. \<open>post\<close> is the outcome of the \<open>POST\<close> of the message and
  \<open>resp\<close> what the stream request gives; \<open>streamModel\<close> catches every exception of its
  own, so the \<open>catch\<close> here sees the failure of the \<open>POST\<close> only.
\<close>

definition sendChatMessage ::
  "(jsstring \<Rightarrow> jsstring + event) \<Rightarrow> ('d \<Rightarrow> nat list \<Rightarrow> jsstring \<times> 'd) \<Rightarrow> 'd \<Rightarrow>
   Task list \<Rightarrow> http \<Rightarrow> response \<Rightarrow> app \<Rightarrow> app" where
  "sendChatMessage parse dec d0 orderedTasks post resp s =
     (if trim (chatInput s) = [] \<or> no_session (sessionId s) then s
      else
        let outgoing = \<lparr>sender = Candidate, mtext = chatInput s, created_at = None,
                         task_id = map_option tid (currentTask orderedTasks (currentTaskIndex s))\<rparr>;
            s1 = (pushMessage outgoing s)\<lparr>chatInput := []\<rparr>
        in case post of
             Rejects m \<Rightarrow> pushMessage (system_message (model_unavailable_prefix @ m)) s1
           | Resolves \<Rightarrow> streamModel parse dec d0 (sessionId s) resp s1)"

text \<open>\<open>!selectedRole\<close>: \<open>null\<close> and \<open>0\<close> are falsy.\<close>

definition not_selected :: "int option \<Rightarrow> bool" where
  "not_selected x \<longleftrightarrow> x = None \<or> x = Some 0"

text \<open>How \<open>POST /sessions\<close> ends: with the new session's identifier, or with an error.\<close>

datatype creation = SessionCreated jsstring | CreationFails jsstring

text \<open>
  \<open>startSession\<close>. The \<open>streamModel\<close> it calls is the closure of the render in which
  the handler was made, so it sees the \<open>sessionId\<close> of the state before the update.
\<close>

definition startSession ::
  "(jsstring \<Rightarrow> jsstring + event) \<Rightarrow> ('d \<Rightarrow> nat list \<Rightarrow> jsstring \<times> 'd) \<Rightarrow> 'd \<Rightarrow>
   creation \<Rightarrow> response \<Rightarrow> app \<Rightarrow> app" where
  "startSession parse dec d0 created resp s =
     (if not_selected (selectedRole s) \<or> not_selected (selectedScenario s)
      then s\<lparr>status := Some choose_role_text\<rparr>
      else
        let s1 = s\<lparr>loading := True\<rparr>;
            s2 = (case created of
                    CreationFails m \<Rightarrow> s1\<lparr>status := Some m\<rparr>
                  | SessionCreated i \<Rightarrow>
                      streamModel parse dec d0 (sessionId s) resp
                        (s1\<lparr>sessionId := Some i,
                            messages := [system_message session_created_text],
                            status := Some session_active_text,
                            view := SessionView,
                            currentTaskIndex := 0\<rparr>))
        in s2\<lparr>loading := False\<rparr>)"

text \<open>
  The operations on a running session that the page offers: sending a chat message,
  and moving to the next or the previous task. Each is called from the render of the
  state it acts on, so the handlers of the task navigation see the current index.
\<close>

datatype action = Send "Task list" http response | NextTask "Task list" | PrevTask

fun perform ::
  "(jsstring \<Rightarrow> jsstring + event) \<Rightarrow> ('d \<Rightarrow> nat list \<Rightarrow> jsstring \<times> 'd) \<Rightarrow> 'd \<Rightarrow>
   action \<Rightarrow> app \<Rightarrow> app" where
  "perform parse dec d0 (Send orderedTasks post resp) s =
     sendChatMessage parse dec d0 orderedTasks post resp s"
| "perform parse dec d0 (NextTask orderedTasks) s =
     s\<lparr>currentTaskIndex :=
         goNextTask orderedTasks (currentTaskIndex s) (currentTaskIndex s)\<rparr>"
| "perform parse dec d0 PrevTask s =
     s\<lparr>currentTaskIndex := goPrevTask (currentTaskIndex s) (currentTaskIndex s)\<rparr>"

definition perform_all ::
  "(jsstring \<Rightarrow> jsstring + event) \<Rightarrow> ('d \<Rightarrow> nat list \<Rightarrow> jsstring \<times> 'd) \<Rightarrow> 'd \<Rightarrow>
   action list \<Rightarrow> app \<Rightarrow> app" where
  "perform_all parse dec d0 acts s = foldl (\<lambda>s a. perform parse dec d0 a s) s acts"

text \<open>Line 590: the send button is disabled without a session and while streaming.\<close>

definition send_enabled :: "app \<Rightarrow> bool" where
  "send_enabled s \<longleftrightarrow> \<not> (no_session (sessionId s) \<or> streaming s)"

text \<open>Lines 479 and 553: the start button is disabled while \<open>loading\<close>, and only then.\<close>

definition start_enabled :: "app \<Rightarrow> bool" where
  "start_enabled s \<longleftrightarrow> \<not> loading s"

section \<open>The task list of the selected scenario (App.tsx, lines 29-37, 124-129)\<close>

text \<open>
  The type \<open>Scenario\<close>; its properties \<open>id\<close>, \<open>name\<close>, \<open>description\<close> and \<open>tasks\<close>
  are named \<open>scenario_id\<close>, \<open>scenario_name\<close>, \<open>scenario_description\<close> and
  \<open>scenario_tasks\<close> here.
\<close>

record Scenario =
  scenario_id :: int
  role_id :: int
  scenario_name :: jsstring
  slug :: jsstring
  scenario_description :: "jsstring option"
  difficulty :: "jsstring option"
  scenario_tasks :: "Task list option"

text \<open>
  \<open>selectedScenarioObj = scenarios.find((s) => s.id === selectedScenario)\<close> and
  \<open>orderedTasks = selectedScenarioObj?.tasks || []\<close>. Selecting a scenario changes
  \<open>selectedScenario\<close> and nothing else: \<open>currentTaskIndex\<close> is reset by
  \<open>startSession\<close> only.
\<close>

definition selectedScenarioObj :: "Scenario list \<Rightarrow> int option \<Rightarrow> Scenario option" where
  "selectedScenarioObj scenarios selected =
     (case selected of
        None \<Rightarrow> None
      | Some i \<Rightarrow> find (\<lambda>s. scenario_id s = i) scenarios)"

definition orderedTasks :: "Scenario list \<Rightarrow> int option \<Rightarrow> Task list" where
  "orderedTasks scenarios selected =
     (case selectedScenarioObj scenarios selected of
        None \<Rightarrow> []
      | Some s \<Rightarrow> (case scenario_tasks s of None \<Rightarrow> [] | Some ts \<Rightarrow> ts))"

text \<open>
  Two scenarios with the task identifiers, types and points of the sample scenarios 101
  and 102 of the source: three tasks and two tasks.
\<close>

definition sample_scenario :: "int \<Rightarrow> Task list \<Rightarrow> Scenario" where
  "sample_scenario i ts =
     \<lparr>scenario_id = i, role_id = 1, scenario_name = ascii ''DS'', slug = ascii ''ds'',
      scenario_description = None, difficulty = None, scenario_tasks = Some ts\<rparr>"

definition sample_scenarios :: "Scenario list" where
  "sample_scenarios =
     [sample_scenario 101
        [sample_task (ascii ''T1'') Theory 5, sample_task (ascii ''C1'') Coding 10,
         sample_task (ascii ''SQL1'') Sql 8],
      sample_scenario 102
        [sample_task (ascii ''T-metrics'') Theory 5, sample_task (ascii ''SQL-ab'') Sql 8] ]"

text \<open>
  A sample stream: four frames (a token, a comment line, a tool call, the final
  \<open>done\<close>), delivered in four chunks whose boundaries fall inside a frame and inside
  a blank line.
\<close>

definition sample_frames :: "jsstring list" where
  \<open>sample_frames =
     [ascii ''data: {"type":"token","content":"Hi"}'',
      ascii '': keep-alive'',
      ascii ''data: {"type":"tool_call","name":"rag_search"}'',
      ascii ''data: {"type":"done","content":"Hi!"}'']\<close>

definition sample_chunks :: "nat list list" where
  \<open>sample_chunks =
     [ascii ''data: {"type":"tok'',
      ascii ''en","content":"Hi"}'' @ [10],
      [10] @ ascii '': keep-alive'' @ [10, 10]
        @ ascii ''data: {"type":"tool_call","name":"rag_search"}'' @ [10, 10]
        @ ascii ''data: {"type":"done",'',
      ascii ''"content":"Hi!"}'' @ [10, 10] ]\<close>

text \<open>A stream whose final \<open>done\<close> event has empty content, after one token.\<close>

definition empty_done_frames :: "jsstring list" where
  \<open>empty_done_frames =
     [ascii ''data: {"type":"token","content":"Hi"}'',
      ascii ''data: {"type":"done","content":""}'']\<close>

definition empty_done_chunks :: "nat list list" where
  \<open>empty_done_chunks =
     [ascii ''data: {"type":"token","content":"Hi"}'' @ [10, 10],
      ascii ''data: {"type":"done","content":""}'' @ [10, 10] ]\<close>





text \<open>Three operations on the sample session: next task, a chat message, previous task.\<close>

definition sample_actions :: "action list" where
  "sample_actions =
     [NextTask sample_tasks,
      Send sample_tasks Resolves (Body sample_chunks EndOfStream),
      PrevTask]"

section \<open>The session orchestrator and the score validator (spec, sections 3, 4.1, 4.4, 7)\<close>

text \<open>
  The sources hold the front end only; the session orchestrator, the score validator,
  the streaming consumer and the retrieval index run in the back end. The definitions of
  this section and of the next two follow the specification.
\<close>

text \<open>Modelled from the spec: the taxonomy of failures (section 7).\<close>

datatype error =
  NotFound | InvalidState | InvalidScore | UnsupportedTool | UpstreamUnavailable | Timeout

text \<open>
  Modelled from the spec: the Task reference data of a scenario (section 3): identifier,
  type, \<open>max_points\<close> and the optional test or SQL-scenario identifier.
\<close>

record TaskDef =
  task_ident :: jsstring
  task_kind :: task_type
  task_max_points :: int
  task_scenario_ref :: "jsstring option"

text \<open>
  Modelled from the spec: a Score (section 3): task identifier, awarded points, and the
  maximum copied from the task definition at scoring time.
\<close>

record Score =
  score_task :: jsstring
  awarded :: int
  max_points_at_recording_time :: int

text \<open>
  Modelled from the spec: the Score Validator (section 4.4), which is not among the
  sources. Given \<open>(task, proposedPoints)\<close> it fails with \<open>InvalidScore\<close> when
  \<open>proposedPoints < 0\<close> or \<open>proposedPoints > task.max_points\<close>, and otherwise returns
  the point value unchanged.
\<close>

definition validateScore :: "TaskDef \<Rightarrow> int \<Rightarrow> error + int" where
  "validateScore task proposedPoints =
     (if proposedPoints < 0 \<or> proposedPoints > task_max_points task then Inl InvalidScore
      else Inr proposedPoints)"

text \<open>Modelled from the spec: the lifecycle states of a session (section 4.1).\<close>

datatype lifecycle = Created | Active | AwaitingModel | Completed

text \<open>
  Modelled from the spec: a Session (section 3): its messages, its scores and its
  lifecycle state. \<open>in_flight\<close> counts the model-turn streams that were started and have
  not yet terminated; the spec speaks of it (at most one "in flight") without naming a
  field.
\<close>

record session =
  lifecycle :: lifecycle
  dialogue :: "Message list"
  scores :: "Score list"
  in_flight :: nat

text \<open>Modelled from the spec: \<open>createSession\<close> gives a session in state \<open>created\<close>, with no
  messages and no scores.\<close>

definition new_session :: session where
  "new_session = \<lparr>lifecycle = Created, dialogue = [], scores = [], in_flight = 0\<rparr>"

text \<open>
  Modelled from the spec: \<open>requestModelTurn\<close> (section 4.1) fails with \<open>InvalidState\<close> if
  the session is already \<open>awaiting_model\<close>, and otherwise starts a stream and moves the
  session to \<open>awaiting_model\<close>.
\<close>

definition requestModelTurn :: "session \<Rightarrow> error + session" where
  "requestModelTurn s =
     (if lifecycle s = AwaitingModel then Inl InvalidState
      else Inr (s\<lparr>lifecycle := AwaitingModel, in_flight := in_flight s + 1\<rparr>))"

text \<open>
  Modelled from the spec: the terminal event (\<open>done\<close> or \<open>error\<close>) of the stream in
  flight is observed: the stream is over and the session is back to \<open>active\<close>. There
  is no such event while no stream is in flight.
\<close>

definition streamTerminated :: "session \<Rightarrow> error + session" where
  "streamTerminated s =
     (if lifecycle s = AwaitingModel
      then Inr (s\<lparr>lifecycle := Active, in_flight := in_flight s - 1\<rparr>)
      else Inl InvalidState)"

text \<open>
  Modelled from the spec: \<open>appendCandidateMessage\<close> (section 4.1) fails with
  \<open>InvalidState\<close> if the session is \<open>awaiting_model\<close> or \<open>completed\<close>, and otherwise
  appends the message.
\<close>

definition appendCandidateMessage :: "session \<Rightarrow> jsstring \<Rightarrow> jsstring option \<Rightarrow> error + session" where
  "appendCandidateMessage s body task =
     (if lifecycle s = AwaitingModel \<or> lifecycle s = Completed then Inl InvalidState
      else Inr (s\<lparr>dialogue := dialogue s @
                  [\<lparr>sender = Candidate, mtext = body, created_at = None, task_id = task\<rparr>]\<rparr>))"

text \<open>
  Modelled from the spec: \<open>recordScore\<close> (section 4.1) delegates the validation to the
  Score Validator, fails with \<open>InvalidScore\<close> if that fails, and otherwise appends a Score
  holding the awarded points and the task's maximum at that time.
\<close>

definition recordScore :: "session \<Rightarrow> TaskDef \<Rightarrow> int \<Rightarrow> error + session" where
  "recordScore s task points =
     (case validateScore task points of
        Inl e \<Rightarrow> Inl e
      | Inr accepted \<Rightarrow>
          Inr (s\<lparr>scores := scores s @
                 [\<lparr>score_task = task_ident task, awarded = accepted,
                   max_points_at_recording_time = task_max_points task\<rparr>]\<rparr>))"

text \<open>
  Modelled from the spec: the operations on a session (section 4.1) with the end of the
  stream in flight, and a run of them from a new session. An operation that fails
  leaves the session as it was (section 7: caller errors must not mutate session state).
\<close>

datatype operation =
  RequestModelTurn
  | StreamTerminated
  | AppendCandidateMessage jsstring "jsstring option"
  | RecordScore TaskDef int

fun step :: "session \<Rightarrow> operation \<Rightarrow> error + session" where
  "step s RequestModelTurn = requestModelTurn s"
| "step s StreamTerminated = streamTerminated s"
| "step s (AppendCandidateMessage body task) = appendCandidateMessage s body task"
| "step s (RecordScore task points) = recordScore s task points"

definition exec :: "session \<Rightarrow> operation \<Rightarrow> session" where
  "exec s operation = (case step s operation of Inl e \<Rightarrow> s | Inr s' \<Rightarrow> s')"

definition run :: "operation list \<Rightarrow> session" where
  "run ops = foldl exec new_session ops"

text \<open>A stream is in flight exactly while the session is \<open>awaiting_model\<close>.\<close>

definition flight_inv :: "session \<Rightarrow> bool" where
  "flight_inv s \<longleftrightarrow> in_flight s = (if lifecycle s = AwaitingModel then 1 else 0)"

text \<open>
  Modelled from the spec: the invariant of section 8 on Score records,
  \<open>0 \<le> awarded \<le> max_points_at_recording_time\<close>, for a list of scores.
\<close>

definition scores_in_range :: "Score list \<Rightarrow> bool" where
  "scores_in_range scs \<longleftrightarrow>
     (\<forall>sc \<in> set scs. 0 \<le> awarded sc \<and> awarded sc \<le> max_points_at_recording_time sc)"

definition coding_task :: TaskDef where
  "coding_task = \<lparr>task_ident = ascii ''C1'', task_kind = Coding, task_max_points = 10,
                   task_scenario_ref = Some (ascii ''logreg_basic'')\<rparr>"

section \<open>The chained tool calls of a model turn (spec, section 4.2)\<close>

text \<open>
  Modelled from the spec: what one completion request to the model gives: a plain
  answer (its tokens), or tokens followed by a tool-call payload (name and arguments),
  or tokens followed by a network or upstream failure.
\<close>

datatype completion =
  Answer "jsstring list"
  | ToolRequest "jsstring list" jsstring jsstring
  | Broken "jsstring list" jsstring

text \<open>Modelled from the spec: the events of the streaming consumer (section 4.2).\<close>

datatype stream_event =
  TokenEv jsstring | ToolCallEv jsstring jsstring | ErrorEv jsstring | DoneEv jsstring

definition cap_exceeded :: jsstring where
  "cap_exceeded = ascii ''tool-call cap exceeded''"

text \<open>
  Modelled from the spec: the loop of the streaming consumer (section 4.2), which is not
  among the sources. \<open>model\<close> answers a completion request for a dialogue, \<open>dispatch\<close>
  is the tool dispatcher with its result normalised to text. A plain answer ends the
  turn with \<open>done\<close> carrying the full text, a failure ends it with \<open>error\<close>; a tool
  call is emitted, dispatched, and a new completion is requested for the dialogue plus
  the tool result, unless the number of chained tool calls allowed for the turn (the
  first argument) is used up, which ends the turn with \<open>error\<close>.
\<close>

fun model_turn ::
  "nat \<Rightarrow> (jsstring list \<Rightarrow> completion) \<Rightarrow> (jsstring \<Rightarrow> jsstring \<Rightarrow> jsstring) \<Rightarrow>
   jsstring list \<Rightarrow> stream_event list" where
  "model_turn 0 model dispatch dlg =
     (case model dlg of
        Answer toks \<Rightarrow> map TokenEv toks @ [DoneEv (concat toks)]
      | Broken toks why \<Rightarrow> map TokenEv toks @ [ErrorEv why]
      | ToolRequest toks tool args \<Rightarrow> map TokenEv toks @ [ErrorEv cap_exceeded])"
| "model_turn (Suc n) model dispatch dlg =
     (case model dlg of
        Answer toks \<Rightarrow> map TokenEv toks @ [DoneEv (concat toks)]
      | Broken toks why \<Rightarrow> map TokenEv toks @ [ErrorEv why]
      | ToolRequest toks tool args \<Rightarrow>
          map TokenEv toks @ ToolCallEv tool args #
          model_turn n model dispatch (dlg @ [dispatch tool args]))"

fun is_tool_call :: "stream_event \<Rightarrow> bool" where
  "is_tool_call (ToolCallEv tool args) = True"
| "is_tool_call _ = False"

fun is_terminal :: "stream_event \<Rightarrow> bool" where
  "is_terminal (ErrorEv why) = True"
| "is_terminal (DoneEv answer) = True"
| "is_terminal _ = False"

text \<open>A model that asks for a tool on every completion, and a dispatcher.\<close>

definition greedy_model :: "jsstring list \<Rightarrow> completion" where
  "greedy_model dlg = ToolRequest [] (ascii ''web_search'') (ascii ''{}'')"

definition echo_dispatch :: "jsstring \<Rightarrow> jsstring \<Rightarrow> jsstring" where
  "echo_dispatch name args = name @ args"

section \<open>The retrieval index (spec, section 4.5)\<close>

text \<open>
  Modelled from the spec: a document of a corpus, reduced to its normalised tokens; a
  corpus is the list of its documents in insertion order.
\<close>

record Document =
  document_id :: nat
  tokens :: "jsstring list"

text \<open>
  Modelled from the spec: the token-frequency vector of a token list, the dot product
  and the squared length of such vectors (the sum runs over the tokens of the first
  list; the other products are zero), and the cosine similarity, over the reals. The
  spec does not say what the similarity of an empty vector is; it is taken as \<open>0\<close>.
\<close>

definition freq :: "jsstring list \<Rightarrow> jsstring \<Rightarrow> real" where
  "freq ts w = real (count_list ts w)"

definition dot :: "jsstring list \<Rightarrow> jsstring list \<Rightarrow> real" where
  "dot q d = (\<Sum>w \<in> set q. freq q w * freq d w)"

definition cosine :: "jsstring list \<Rightarrow> jsstring list \<Rightarrow> real" where
  "cosine q d =
     (if dot q q = 0 \<or> dot d d = 0 then 0 else dot q d / (sqrt (dot q q) * sqrt (dot d d)))"

text \<open>
  Modelled from the spec: the search of the retrieval index (section 4.5), which is not
  among the sources: every document with its similarity to the query, ordered by
  descending similarity by a stable sort, so that ties keep the insertion order, and
  cut to the first \<open>k\<close>.
\<close>

definition scored :: "Document list \<Rightarrow> jsstring list \<Rightarrow> (nat \<times> real) list" where
  "scored corpus q = map (\<lambda>d. (document_id d, cosine q (tokens d))) corpus"

definition ranking :: "Document list \<Rightarrow> jsstring list \<Rightarrow> (nat \<times> real) list" where
  "ranking corpus q = sort_key (\<lambda>r. - snd r) (scored corpus q)"

definition search :: "Document list \<Rightarrow> jsstring list \<Rightarrow> nat \<Rightarrow> (nat \<times> real) list" where
  "search corpus q k = take k (ranking corpus q)"

text \<open>Two documents with the same text, added one after the other.\<close>

definition twin_corpus :: "Document list" where
  "twin_corpus =
     [\<lparr>document_id = 1, tokens = [ascii ''sql'']\<rparr>,
      \<lparr>document_id = 2, tokens = [ascii ''sql'']\<rparr>]"

definition mixed_corpus :: "Document list" where
  "mixed_corpus =
     [\<lparr>document_id = 1, tokens = [ascii ''etl'']\<rparr>,
      \<lparr>document_id = 2, tokens = [ascii ''sql'']\<rparr>]"


section \<open>Splitting the buffer on blank lines\<close>

lemma split_blank_nonempty: "split_blank s \<noteq> []"
proof (induction s rule: split_blank.induct)
  case (3 c d cs)
  then show ?case by (cases "split_blank (d # cs)") auto
qed simp_all

lemma split_blank_single: "split_blank s = [p] \<Longrightarrow> p = s"
proof (induction s arbitrary: p rule: split_blank.induct)
  case (3 c d cs)
  show ?case
  proof (cases "c = 10 \<and> d = 10")
    case True
    with 3(3) split_blank_nonempty[of cs] show ?thesis by simp
  next
    case False
    obtain q qs where q: "split_blank (d # cs) = q # qs"
      using split_blank_nonempty[of "d # cs"] by (cases "split_blank (d # cs)") auto
    with False 3(3) have "qs = []" "p = c # q" by auto
    with 3(2)[OF False, of q] q show ?thesis by simp
  qed
qed simp_all

text \<open>
  Splitting a text that arrives in two pieces: the complete frames of the first piece,
  then the split of what was left over followed by the second piece.
\<close>

lemma split_blank_append:
  "split_blank (s @ ys) = butlast (split_blank s) @ split_blank (last (split_blank s) @ ys)"
proof (induction s rule: split_blank.induct)
  case 1
  show ?case by simp
next
  case (2 c)
  show ?case by simp
next
  case (3 c d cs)
  show ?case
  proof (cases "c = 10 \<and> d = 10")
    case True
    with 3(1) split_blank_nonempty[of cs] show ?thesis by simp
  next
    case False
    obtain q qs where q: "split_blank (d # cs) = q # qs"
      using split_blank_nonempty[of "d # cs"] by (cases "split_blank (d # cs)") auto
    have step: "split_blank ((c # d # cs) @ ys) = cons_first c (split_blank ((d # cs) @ ys))"
      using False by (cases "c = 10") auto
    show ?thesis
    proof (cases qs)
      case Nil
      with q have qd: "q = d # cs" using split_blank_single by blast
      from Nil q False have l: "split_blank (c # d # cs) = [c # q]" by simp
      show ?thesis using False qd by (simp add: l step del: split_blank.simps)
    next
      case (Cons r rs)
      from q Cons False have l: "split_blank (c # d # cs) = (c # q) # r # rs" by simp
      from 3(2)[OF False] q Cons
      have "split_blank ((d # cs) @ ys) = q # butlast (r # rs) @ split_blank (last (r # rs) @ ys)"
        by simp
      with step l show ?thesis by simp
    qed
  qed
qed

lemma split_blank_last_single: "split_blank (last (split_blank s)) = [last (split_blank s)]"
proof (induction s rule: split_blank.induct)
  case (3 c d cs)
  show ?case
  proof (cases "c = 10 \<and> d = 10")
    case True
    with 3(1) split_blank_nonempty[of cs] show ?thesis by simp
  next
    case False
    obtain q qs where q: "split_blank (d # cs) = q # qs"
      using split_blank_nonempty[of "d # cs"] by (cases "split_blank (d # cs)") auto
    show ?thesis
    proof (cases qs)
      case Nil
      with q have qd: "q = d # cs" using split_blank_single by blast
      from Nil q False have l: "split_blank (c # d # cs) = [c # q]" by simp
      show ?thesis using l qd by simp
    next
      case (Cons r rs)
      from q Cons False have l: "split_blank (c # d # cs) = (c # q) # r # rs" by simp
      with 3(2)[OF False] q Cons show ?thesis by simp
    qed
  qed
qed simp_all

lemma split_blank_line:
  "10 \<notin> set f \<Longrightarrow> split_blank (f @ 10 # 10 # rest) = f # split_blank rest"
proof (induction f)
  case Nil
  show ?case by simp
next
  case (Cons c f)
  then have c: "c \<noteq> 10" and ih: "split_blank (f @ 10 # 10 # rest) = f # split_blank rest"
    by auto
  obtain e es where e: "f @ 10 # 10 # rest = e # es" by (cases f) auto
  have "split_blank (c # e # es) = cons_first c (split_blank (e # es))"
    using c by simp
  with e ih show ?case by simp
qed

lemma split_blank_lines:
  "\<forall>f \<in> set frames. 10 \<notin> set f \<Longrightarrow>
   split_blank (concat (map (\<lambda>f. f @ [10, 10]) frames)) = frames @ [ [] ]"
  by (induction frames) (simp_all add: split_blank_line)

section \<open>The read loop handles the frames of the whole text\<close>

lemma handle_parts_append:
  "handle_parts parse (ps @ qs) t =
     (case handle_parts parse ps t of
        (Some m, t') \<Rightarrow> (Some m, t')
      | (None, t') \<Rightarrow> handle_parts parse qs t')"
  by (induction ps arbitrary: t) (auto split: prod.splits option.splits)

lemma read_loop_Nil:
  "read_loop parse dec [] e buf d t = after_frames e (None, t)"
  by (cases e) (simp_all add: after_frames_def)

lemma read_loop_frames:
  assumes dec: "streaming_decoder dec"
  shows "split_blank buf = [buf] \<Longrightarrow>
     read_loop parse dec chunks e buf d t =
       after_frames e
         (handle_parts parse (butlast (split_blank (buf @ fst (dec d (concat chunks))))) t)"
proof (induction chunks arbitrary: buf d t)
  case Nil
  from dec have "dec d [] = ([], d)" by (simp add: streaming_decoder_def)
  with Nil show ?case by (simp add: read_loop_Nil)
next
  case (Cons v rest)
  obtain x d1 where x: "dec d v = (x, d1)" by (cases "dec d v")
  obtain y d2 where y: "dec d1 (concat rest) = (y, d2)" by (cases "dec d1 (concat rest)")
  from dec x y have xy: "dec d (v @ concat rest) = (x @ y, d2)"
    by (simp add: streaming_decoder_def)
  let ?parts = "split_blank (buf @ x)"
  have ne: "?parts \<noteq> []" by (rule split_blank_nonempty)
  have sp: "split_blank (buf @ x @ y) = butlast ?parts @ split_blank (last ?parts @ y)"
    using split_blank_append[of "buf @ x" y] by simp
  have bl: "butlast (split_blank (buf @ x @ y))
      = butlast ?parts @ butlast (split_blank (last ?parts @ y))"
    by (simp add: sp butlast_append split_blank_nonempty)
  have ih: "read_loop parse dec rest e (last ?parts) d1 t' =
       after_frames e (handle_parts parse (butlast (split_blank (last ?parts @ y))) t')" for t'
    using Cons.IH[OF split_blank_last_single, of "buf @ x" d1 t'] y by simp
  show ?case
    by (simp add: x xy bl handle_parts_append pop_or_empty_def ne ih after_frames_def
        split: prod.splits option.splits)
qed

lemma handle_parts_events:
  "\<forall>f \<in> set frames.
     (case frame_payload f of None \<Rightarrow> True | Some raw \<Rightarrow> \<not> isl (parse raw)) \<Longrightarrow>
   handle_parts parse frames t = (None, apply_events (events_of parse frames) t)"
proof (induction frames arbitrary: t)
  case Nil
  show ?case by (simp add: events_of_def apply_events_def)
next
  case (Cons f frames)
  then show ?case
    by (auto simp: events_of_def apply_events_def handle_part_def
        split: option.splits sum.splits)
qed

lemma streamModel_well_formed:
  assumes "well_formed_stream parse dec d0 chunks frames" and "\<not> no_session sid"
  shows "streamModel parse dec d0 sid (Body chunks EndOfStream) s =
           finally_block (apply_events (events_of parse frames) (begin_turn s))"
proof -
  from assms(1) have dec: "streaming_decoder dec"
    and decoded: "fst (dec d0 (concat chunks)) = concat (map (\<lambda>f. f @ [10, 10]) frames)"
    and one_line: "\<forall>f \<in> set frames. 10 \<notin> set f"
    and ok: "\<forall>f \<in> set frames.
      (case frame_payload f of None \<Rightarrow> True | Some raw \<Rightarrow> \<not> isl (parse raw))"
    by (auto simp: well_formed_stream_def)
  have "read_loop parse dec chunks EndOfStream [] d0 (begin_turn s) =
      after_frames EndOfStream (handle_parts parse frames (begin_turn s))"
    using read_loop_frames[OF dec, of "[]" parse chunks EndOfStream d0 "begin_turn s"]
    by (simp add: decoded split_blank_lines[OF one_line])
  also have "\<dots> = (None, apply_events (events_of parse frames) (begin_turn s))"
    by (simp add: handle_parts_events[OF ok] after_frames_def)
  finally show ?thesis using assms(2)
    by (simp add: streamModel_def try_block_def catch_block_def)
qed

text \<open>
  Whatever the stream holds and however it ends, the chunks can be merged into one
  without changing what \<open>streamModel\<close> does.
\<close>

lemma streamModel_concat:
  assumes "streaming_decoder dec"
  shows "streamModel parse dec d0 sid (Body chunks e) s =
         streamModel parse dec d0 sid (Body [concat chunks] e) s"
proof -
  have "read_loop parse dec chunks e [] d0 t = read_loop parse dec [concat chunks] e [] d0 t"
    for t
    using read_loop_frames[OF assms, of "[]" parse chunks e d0 t]
          read_loop_frames[OF assms, of "[]" parse "[concat chunks]" e d0 t]
    by simp
  then show ?thesis by (simp add: streamModel_def try_block_def)
qed

lemma streaming_ascii_decoder: "streaming_decoder ascii_decoder"
  by (simp add: streaming_decoder_def ascii_decoder_def)


section \<open>Chunk boundaries do not matter\<close>

lemma sample_well_formed:
  "well_formed_stream sample_parse ascii_decoder () sample_chunks sample_frames"
  by (simp add: well_formed_stream_def streaming_ascii_decoder)
     (simp add: sample_chunks_def sample_frames_def ascii_decoder_def ascii_def
      frame_payload_def startsWith_def trim_def is_space_def sample_parse_def)

lemma sample_events:
  "events_of sample_parse sample_frames =
     [token_event (ascii ''Hi''), tool_call_event, done_event (ascii ''Hi!'')]"
  by (simp add: events_of_def sample_frames_def ascii_def frame_payload_def
      startsWith_def trim_def is_space_def sample_parse_def)

lemma session_seven: "\<not> no_session (Some (ascii ''7''))"
  by (simp add: no_session_def ascii_def)

text \<open>
  C2: when the decoded text of the chunks is a sequence of one-line frames, each followed
  by a blank line, and every \<open>data:\<close> payload parses, \<open>streamModel\<close> applies exactly the
  events of those frames, in order and once each (frames without a \<open>data:\<close> payload give
  no event), and every other way of cutting the same bytes into chunks gives the same
  result.
\<close>

theorem C2_chunk_boundaries:
  assumes "well_formed_stream parse dec d0 chunks frames" and "\<not> no_session sid"
  shows "streamModel parse dec d0 sid (Body chunks EndOfStream) s =
           finally_block (apply_events (events_of parse frames) (begin_turn s))
       \<and> (\<forall>chunks'. concat chunks' = concat chunks \<longrightarrow>
            streamModel parse dec d0 sid (Body chunks' EndOfStream) s =
            streamModel parse dec d0 sid (Body chunks EndOfStream) s)"
proof -
  have wf: "well_formed_stream parse dec d0 chunks' frames" if "concat chunks' = concat chunks"
    for chunks'
    using assms(1) that by (simp add: well_formed_stream_def)
  have "streamModel parse dec d0 sid (Body chunks' EndOfStream) s =
        finally_block (apply_events (events_of parse frames) (begin_turn s))"
    if "concat chunks' = concat chunks" for chunks'
    using streamModel_well_formed[OF wf[OF that] assms(2)] .
  then show ?thesis by simp
qed

theorem C2_chunk_boundaries_witness:
  "well_formed_stream sample_parse ascii_decoder () sample_chunks sample_frames
   \<and> \<not> no_session (Some (ascii ''7''))
   \<and> events_of sample_parse sample_frames =
       [token_event (ascii ''Hi''), tool_call_event, done_event (ascii ''Hi!'')]
   \<and> messages (streamModel sample_parse ascii_decoder () (Some (ascii ''7''))
        (Body sample_chunks EndOfStream) sample_app)
      = [system_message session_created_text, model_message (ascii ''Hi!'')]
   \<and> streamModel sample_parse ascii_decoder () (Some (ascii ''7''))
        (Body [concat sample_chunks] EndOfStream) sample_app
      = streamModel sample_parse ascii_decoder () (Some (ascii ''7''))
        (Body sample_chunks EndOfStream) sample_app"
proof -
  note c2 = C2_chunk_boundaries[OF sample_well_formed session_seven, of sample_app]
  have "messages (finally_block
          (apply_events (events_of sample_parse sample_frames) (begin_turn sample_app)))
     = [system_message session_created_text, model_message (ascii ''Hi!'')]"
    by (simp add: sample_events apply_events_def apply_event_def on_token_def on_error_def
        on_done_def token_event_def done_event_def tool_call_event_def ascii_def
        begin_turn_def finally_block_def pushMessage_def sample_app_def)
  with c2 sample_well_formed session_seven sample_events show ?thesis by simp
qed


section \<open>What the events do to the messages and to the accumulated text\<close>

lemma messages_apply_event:
  "messages (ui (apply_event ev t)) = messages (ui t) @ error_notices [ev]"
  by (simp add: apply_event_def on_token_def on_error_def on_done_def error_notices_def
      pushMessage_def)

lemma apply_events_snoc: "apply_events (evs @ [ev]) t = apply_event ev (apply_events evs t)"
  by (simp add: apply_events_def)

lemma error_notices_append: "error_notices (xs @ ys) = error_notices xs @ error_notices ys"
  by (simp add: error_notices_def)

lemma messages_apply_events:
  "messages (ui (apply_events evs t)) = messages (ui t) @ error_notices evs"
proof (induction evs rule: rev_induct)
  case Nil
  show ?case by (simp add: apply_events_def error_notices_def)
next
  case (snoc ev evs)
  then show ?case
    by (simp add: apply_events_snoc messages_apply_event error_notices_append)
qed

lemma messages_finally_block:
  "messages (finally_block t) =
     messages (ui t) @ (if accumulated t = [] then [] else [model_message (accumulated t)])"
  by (simp add: finally_block_def pushMessage_def Let_def)

lemma streaming_finally_block: "\<not> streaming (finally_block t)"
  by (simp add: finally_block_def pushMessage_def Let_def)

lemma accumulated_done:
  "etype d = JString (ascii ''done'') \<Longrightarrow>
   accumulated (apply_event d t) =
     (if truthy (content d) then to_str (content d) else accumulated t)"
  by (simp add: apply_event_def on_token_def on_error_def on_done_def ascii_def)

lemma truthy_to_str: "truthy v \<Longrightarrow> to_str v \<noteq> []"
  by (cases v) simp_all

lemma messages_begin_turn: "messages (ui (begin_turn s)) = messages s"
  by (simp add: begin_turn_def)


section \<open>Events of other types are dropped\<close>

text \<open>
  C9: an event whose type is none of \<open>token\<close>, \<open>error\<close> and \<open>done\<close> (a \<open>tool_call\<close>
  event for one) changes nothing: the accumulated text, the streamed reply and the
  message list are as before, and the frame that carries it raises no exception.
\<close>

theorem C9_other_events_dropped:
  assumes "etype data \<notin>
    {JString (ascii ''token''), JString (ascii ''error''), JString (ascii ''done'')}"
  shows "apply_event data t = t
       \<and> (frame_payload part = Some raw \<and> parse raw = Inr data \<longrightarrow>
            handle_part parse part t = (None, t))"
  using assms
  by (simp add: apply_event_def on_token_def on_error_def on_done_def handle_part_def)

theorem C9_other_events_dropped_witness:
  \<open>etype tool_call_event \<notin>
     {JString (ascii ''token''), JString (ascii ''error''), JString (ascii ''done'')}
   \<and> frame_payload (ascii ''data: {"type":"tool_call","name":"rag_search"}'')
       = Some (ascii ''{"type":"tool_call","name":"rag_search"}'')
   \<and> sample_parse (ascii ''{"type":"tool_call","name":"rag_search"}'') = Inr tool_call_event
   \<and> handle_part sample_parse (ascii ''data: {"type":"tool_call","name":"rag_search"}'')
        (begin_turn sample_app) = (None, begin_turn sample_app)\<close>
proof -
  have ty: "etype tool_call_event \<notin>
     {JString (ascii ''token''), JString (ascii ''error''), JString (ascii ''done'')}"
    by (simp add: tool_call_event_def ascii_def)
  have fp: \<open>frame_payload (ascii ''data: {"type":"tool_call","name":"rag_search"}'')
       = Some (ascii ''{"type":"tool_call","name":"rag_search"}'')\<close>
    by (simp add: frame_payload_def ascii_def startsWith_def trim_def is_space_def)
  have pr: \<open>sample_parse (ascii ''{"type":"tool_call","name":"rag_search"}'')
       = Inr tool_call_event\<close>
    by (simp add: sample_parse_def ascii_def)
  from C9_other_events_dropped[OF ty, of "begin_turn sample_app" _ _ sample_parse] fp pr ty
  show ?thesis by blast
qed


section \<open>The final \<open>done\<close> event and the stored answer\<close>

lemma empty_done_well_formed:
  "well_formed_stream sample_parse ascii_decoder () empty_done_chunks empty_done_frames"
  by (simp add: well_formed_stream_def streaming_ascii_decoder)
     (simp add: empty_done_chunks_def empty_done_frames_def ascii_decoder_def ascii_def
      frame_payload_def startsWith_def trim_def is_space_def sample_parse_def)

lemma empty_done_events:
  "events_of sample_parse empty_done_frames = [token_event (ascii ''Hi''), done_event [] ]"
  by (simp add: events_of_def empty_done_frames_def ascii_def frame_payload_def
      startsWith_def trim_def is_space_def sample_parse_def)

text \<open>
  C3, as stated, makes the stored model message equal to the content of the final
  \<open>done\<close> event for every completed stream. The source replaces the accumulated text
  only \<open>if (data.content)\<close>: after the token \<open>Hi\<close>, a final \<open>done\<close> event with empty
  content leaves \<open>Hi\<close> as the stored message.
\<close>

theorem C3_empty_done_counterexample:
  "well_formed_stream sample_parse ascii_decoder () empty_done_chunks empty_done_frames
   \<and> events_of sample_parse empty_done_frames = [token_event (ascii ''Hi''), done_event [] ]
   \<and> content (done_event []) = JString []
   \<and> messages (streamModel sample_parse ascii_decoder () (Some (ascii ''7''))
        (Body empty_done_chunks EndOfStream) sample_app)
      = [system_message session_created_text, model_message (ascii ''Hi'')]
   \<and> model_message (ascii ''Hi'') \<noteq> model_message (to_str (content (done_event [])))"
proof -
  have "messages (streamModel sample_parse ascii_decoder () (Some (ascii ''7''))
        (Body empty_done_chunks EndOfStream) sample_app)
      = [system_message session_created_text, model_message (ascii ''Hi'')]"
    unfolding streamModel_well_formed[OF empty_done_well_formed session_seven]
    by (simp add: empty_done_events apply_events_def apply_event_def on_token_def on_error_def
        on_done_def token_event_def done_event_def ascii_def
        begin_turn_def finally_block_def pushMessage_def sample_app_def)
  then show ?thesis
    using empty_done_well_formed empty_done_events
    by (simp add: done_event_def model_message_def ascii_def)
qed

text \<open>
  C3 (amended): for a completed, well-formed stream whose last event is \<open>done\<close>, the
  messages appended are the notices of the \<open>error\<close> events followed by at most one model
  message. When the content of the \<open>done\<close> event is a non-empty string, that model
  message is this content, whatever the tokens before it were; when the content is
  empty, \<open>null\<close> or absent, it is the text accumulated from the events before (and no
  model message is stored when that text is empty).
\<close>

theorem C3_done_content_persisted:
  assumes "well_formed_stream parse dec d0 chunks frames" and "\<not> no_session sid"
    and "events_of parse frames = evs @ [d]" and "etype d = JString (ascii ''done'')"
  shows "messages (streamModel parse dec d0 sid (Body chunks EndOfStream) s) =
           messages s @ error_notices evs @
           (if truthy (content d) then [model_message (to_str (content d))]
            else if accumulated (apply_events evs (begin_turn s)) = [] then []
            else [model_message (accumulated (apply_events evs (begin_turn s)))])"
proof -
  let ?t = "apply_events evs (begin_turn s)"
  have nd: "error_notices [d] = []"
    using assms(4) by (simp add: error_notices_def ascii_def)
  have "streamModel parse dec d0 sid (Body chunks EndOfStream) s =
      finally_block (apply_event d ?t)"
    using streamModel_well_formed[OF assms(1,2), of s] assms(3) by (simp add: apply_events_snoc)
  then show ?thesis
    by (simp add: messages_finally_block messages_apply_event messages_apply_events
        accumulated_done[OF assms(4)] nd messages_begin_turn truthy_to_str)
qed

theorem C3_done_content_persisted_witness:
  "well_formed_stream sample_parse ascii_decoder () sample_chunks sample_frames
   \<and> \<not> no_session (Some (ascii ''7''))
   \<and> events_of sample_parse sample_frames =
       [token_event (ascii ''Hi''), tool_call_event] @ [done_event (ascii ''Hi!'')]
   \<and> etype (done_event (ascii ''Hi!'')) = JString (ascii ''done'')
   \<and> truthy (content (done_event (ascii ''Hi!'')))
   \<and> messages (streamModel sample_parse ascii_decoder () (Some (ascii ''7''))
        (Body sample_chunks EndOfStream) sample_app)
      = messages sample_app @ [model_message (ascii ''Hi!'')]"
proof -
  have ev: "events_of sample_parse sample_frames =
       [token_event (ascii ''Hi''), tool_call_event] @ [done_event (ascii ''Hi!'')]"
    by (simp add: sample_events)
  have ty: "etype (done_event (ascii ''Hi!'')) = JString (ascii ''done'')"
    by (simp add: done_event_def)
  have tr: "truthy (content (done_event (ascii ''Hi!'')))"
    by (simp add: done_event_def ascii_def)
  have en: "error_notices [token_event (ascii ''Hi''), tool_call_event] = []"
    by (simp add: error_notices_def token_event_def tool_call_event_def ascii_def)
  from C3_done_content_persisted[OF sample_well_formed session_seven ev ty, of sample_app]
  have "messages (streamModel sample_parse ascii_decoder () (Some (ascii ''7''))
        (Body sample_chunks EndOfStream) sample_app)
      = messages sample_app @ [model_message (ascii ''Hi!'')]"
    using tr en by (simp add: done_event_def)
  with sample_well_formed session_seven ev ty tr show ?thesis by blast
qed


section \<open>A read that fails, and messages only grow\<close>

lemma read_loop_ReadFails:
  "read_loop parse dec chunks (ReadFails m) buf d t =
     (case read_loop parse dec chunks EndOfStream buf d t of
        (None, t') \<Rightarrow> (Some m, t')
      | (Some e, t') \<Rightarrow> (Some e, t'))"
proof (induction chunks arbitrary: buf d t)
  case Nil
  show ?case by simp
next
  case (Cons v rest)
  obtain x d1 where x: "dec d v = (x, d1)" by (cases "dec d v")
  obtain r t1 where h: "handle_parts parse (butlast (split_blank (buf @ x))) t = (r, t1)"
    by (cases "handle_parts parse (butlast (split_blank (buf @ x))) t")
  show ?case
    by (cases r) (simp_all add: x h Cons)
qed

lemma prefix_apply_event: "prefix (messages (ui t)) (messages (ui (apply_event ev t)))"
  by (simp add: messages_apply_event)

lemma prefix_handle_part:
  "prefix (messages (ui t)) (messages (ui (snd (handle_part parse part t))))"
  by (auto simp: handle_part_def prefix_apply_event split: option.splits sum.splits)

lemma prefix_handle_parts:
  "prefix (messages (ui t)) (messages (ui (snd (handle_parts parse parts t))))"
proof (induction parts arbitrary: t)
  case Nil
  show ?case by simp
next
  case (Cons p ps)
  obtain r t1 where h: "handle_part parse p t = (r, t1)" by (cases "handle_part parse p t")
  have p1: "prefix (messages (ui t)) (messages (ui t1))"
    using prefix_handle_part[of t parse p] h by simp
  show ?case
  proof (cases r)
    case None
    with h Cons[of t1] p1 show ?thesis by (auto intro: prefix_order.trans)
  next
    case (Some a)
    with h p1 show ?thesis by simp
  qed
qed

lemma prefix_read_loop:
  "prefix (messages (ui t)) (messages (ui (snd (read_loop parse dec chunks e buf d t))))"
proof (induction chunks arbitrary: buf d t)
  case Nil
  show ?case by (cases e) simp_all
next
  case (Cons v rest)
  obtain x d1 where x: "dec d v = (x, d1)" by (cases "dec d v")
  let ?parts = "split_blank (buf @ x)"
  obtain r t1 where h: "handle_parts parse (butlast ?parts) t = (r, t1)"
    by (cases "handle_parts parse (butlast ?parts) t")
  have p1: "prefix (messages (ui t)) (messages (ui t1))"
    using prefix_handle_parts[of t parse "butlast ?parts"] h by simp
  show ?case
  proof (cases r)
    case None
    with h x Cons[of t1 "pop_or_empty ?parts" d1] p1 show ?thesis
      by (auto intro: prefix_order.trans)
  next
    case (Some a)
    with h x p1 show ?thesis by simp
  qed
qed


section \<open>Failures during a model turn\<close>














section \<open>The message list is append-only\<close>

lemma prefix_finally_block: "prefix (messages (ui t)) (messages (finally_block t))"
  by (simp add: messages_finally_block)

lemma prefix_catch_block: "prefix (messages (ui (snd r))) (messages (ui (catch_block r)))"
  by (cases r) (auto simp: catch_block_def pushMessage_def split: option.splits)

lemma prefix_try_block:
  "prefix (messages (ui t)) (messages (ui (snd (try_block parse dec d0 resp t))))"
  by (cases resp) (simp_all add: try_block_def prefix_read_loop)

lemma prefix_streamModel:
  "prefix (messages s) (messages (streamModel parse dec d0 sid resp s))"
proof (cases "no_session sid")
  case True
  then show ?thesis by (simp add: streamModel_def)
next
  case False
  let ?r = "try_block parse dec d0 resp (begin_turn s)"
  have "prefix (messages s) (messages (ui (snd ?r)))"
    using prefix_try_block[of "begin_turn s" parse dec d0 resp]
    by (simp add: messages_begin_turn)
  also have "prefix \<dots> (messages (ui (catch_block ?r)))" by (rule prefix_catch_block)
  also have "prefix \<dots> (messages (finally_block (catch_block ?r)))"
    by (rule prefix_finally_block)
  finally show ?thesis using False by (simp add: streamModel_def)
qed

lemma prefix_sendChatMessage:
  "prefix (messages s) (messages (sendChatMessage parse dec d0 ts post resp s))"
proof (cases "trim (chatInput s) = [] \<or> no_session (sessionId s)")
  case True
  then show ?thesis by (simp add: sendChatMessage_def)
next
  case False
  let ?out = "\<lparr>sender = Candidate, mtext = chatInput s, created_at = None,
                 task_id = map_option tid (currentTask ts (currentTaskIndex s))\<rparr>"
  let ?s1 = "(pushMessage ?out s)\<lparr>chatInput := []\<rparr>"
  have p1: "prefix (messages s) (messages ?s1)" by (simp add: pushMessage_def)
  show ?thesis
  proof (cases post)
    case Resolves
    have "prefix (messages ?s1) (messages (streamModel parse dec d0 (sessionId s) resp ?s1))"
      by (rule prefix_streamModel)
    with p1
    have "prefix (messages s) (messages (streamModel parse dec d0 (sessionId s) resp ?s1))"
      by (rule prefix_order.trans)
    with False Resolves show ?thesis by (simp add: sendChatMessage_def Let_def)
  next
    case (Rejects m)
    with False show ?thesis by (simp add: sendChatMessage_def Let_def pushMessage_def)
  qed
qed

lemma prefix_perform: "prefix (messages s) (messages (perform parse dec d0 a s))"
  by (cases a) (simp_all add: prefix_sendChatMessage)

lemma prefix_perform_all: "prefix (messages s) (messages (perform_all parse dec d0 acts s))"
proof (induction acts rule: rev_induct)
  case Nil
  show ?case by (simp add: perform_all_def)
next
  case (snoc a acts)
  have "prefix (messages (perform_all parse dec d0 acts s))
          (messages (perform parse dec d0 a (perform_all parse dec d0 acts s)))"
    by (rule prefix_perform)
  with snoc show ?case by (auto simp: perform_all_def intro: prefix_order.trans)
qed

text \<open>
  A new session starts its list afresh: when \<open>POST /sessions\<close> succeeds, \<open>startSession\<close>
  replaces the list by the creation notice, and what follows is appended to that.
\<close>

lemma startSession_fresh_list:
  assumes "\<not> not_selected (selectedRole s)" and "\<not> not_selected (selectedScenario s)"
  shows "prefix [system_message session_created_text]
           (messages (startSession parse dec d0 (SessionCreated i) resp s))"
proof -
  let ?s2 = "s\<lparr>loading := True, sessionId := Some i,
                messages := [system_message session_created_text],
                status := Some session_active_text, view := SessionView,
                currentTaskIndex := 0\<rparr>"
  have "prefix (messages ?s2) (messages (streamModel parse dec d0 (sessionId s) resp ?s2))"
    by (rule prefix_streamModel)
  with assms show ?thesis by (simp add: startSession_def)
qed

text \<open>
  C5: within a session the message list is append-only. \<open>pushMessage\<close>, the one update
  the operations of a running session apply to the list, appends exactly one element at
  the end; and after any sequence of operations (chat messages with their model turns,
  task navigation) the old list is a prefix of the new one: the length has not
  decreased and every element is where and what it was.
\<close>

theorem C5_messages_append_only:
  "messages (pushMessage msg s) = messages s @ [msg]
   \<and> prefix (messages s) (messages (perform_all parse dec d0 acts s))
   \<and> length (messages s) \<le> length (messages (perform_all parse dec d0 acts s))
   \<and> (\<forall>i < length (messages s).
        messages (perform_all parse dec d0 acts s) ! i = messages s ! i)"
proof -
  have p: "prefix (messages s) (messages (perform_all parse dec d0 acts s))"
    by (rule prefix_perform_all)
  then obtain zs where "messages (perform_all parse dec d0 acts s) = messages s @ zs"
    by (auto simp: prefix_def)
  with p show ?thesis by (simp add: pushMessage_def nth_append)
qed

theorem C5_messages_append_only_witness:
  "(0::nat) < length (messages sample_app)
   \<and> messages (perform_all sample_parse ascii_decoder () sample_actions sample_app) ! 0
       = messages sample_app ! 0
   \<and> messages (perform_all sample_parse ascii_decoder () sample_actions sample_app)
       = messages sample_app @
         [\<lparr>sender = Candidate, mtext = ascii ''hello'', created_at = None,
           task_id = Some (ascii ''C1'')\<rparr>,
          model_message (ascii ''Hi!'')]"
proof -
  have l: "(0::nat) < length (messages sample_app)" by (simp add: sample_app_def)
  have sid: "\<not> no_session (Some [55])" by (simp add: no_session_def)
  have run: "messages (perform_all sample_parse ascii_decoder () sample_actions sample_app)
       = messages sample_app @
         [\<lparr>sender = Candidate, mtext = ascii ''hello'', created_at = None,
           task_id = Some (ascii ''C1'')\<rparr>,
          model_message (ascii ''Hi!'')]"
    by (simp add: perform_all_def sample_actions_def sendChatMessage_def sample_app_def
        goNextTask_def goPrevTask_def sample_tasks_def currentTask_def sample_task_def
        trim_def is_space_def ascii_def no_session_def pushMessage_def
        streamModel_well_formed[OF sample_well_formed sid] sample_events
        apply_events_def apply_event_def on_token_def on_error_def on_done_def
        token_event_def done_event_def tool_call_event_def begin_turn_def finally_block_def)
  from C5_messages_append_only[of _ sample_app sample_parse ascii_decoder "()" sample_actions]
    l run
  show ?thesis by blast
qed


section \<open>The score validator\<close>

lemma recordScore_in_range:
  assumes "scores_in_range (scores s)" and "recordScore s task points = Inr s'"
  shows "scores_in_range (scores s')"
  using assms
  by (auto simp: recordScore_def validateScore_def scores_in_range_def split: if_splits)

text \<open>
  C1: the score validator fails with \<open>InvalidScore\<close> exactly when the proposed points are
  below \<open>0\<close> or above the task's \<open>max_points\<close>, and otherwise returns them unchanged; it
  accepts \<open>max_points\<close> (of a task whose maximum is not negative) and rejects
  \<open>max_points + 1\<close>; a score that \<open>recordScore\<close> appends holds the proposed points
  unchanged, within \<open>0\<close> and the maximum; and so every score recorded by any run of
  operations on a session is within the range of its task.
\<close>

theorem C1_score_validator:
  "(validateScore task p = Inl InvalidScore \<longleftrightarrow> p < 0 \<or> p > task_max_points task)
   \<and> (\<not> (p < 0 \<or> p > task_max_points task) \<longrightarrow> validateScore task p = Inr p)
   \<and> (0 \<le> task_max_points task \<longrightarrow>
        validateScore task (task_max_points task) = Inr (task_max_points task))
   \<and> validateScore task (task_max_points task + 1) = Inl InvalidScore
   \<and> (recordScore s task p = Inr s' \<longrightarrow>
        scores s' = scores s @
          [\<lparr>score_task = task_ident task, awarded = p,
            max_points_at_recording_time = task_max_points task\<rparr>]
        \<and> 0 \<le> p \<and> p \<le> task_max_points task)
   \<and> (scores_in_range (scores s) \<and> recordScore s task p = Inr s' \<longrightarrow>
        scores_in_range (scores s'))
   \<and> scores_in_range (scores (run ops))"
proof -
  have inv: "scores_in_range (scores (run ops))"
  proof (induction ops rule: rev_induct)
    case Nil
    show ?case by (simp add: run_def new_session_def scores_in_range_def)
  next
    case (snoc a ops)
    have "scores_in_range (scores (exec (run ops) a))"
    proof (cases a)
      case (RecordScore t x)
      with snoc recordScore_in_range[of "run ops" t x] show ?thesis
        by (auto simp: exec_def split: sum.splits)
    qed (use snoc in \<open>auto simp: exec_def requestModelTurn_def streamTerminated_def
          appendCandidateMessage_def split: sum.splits if_splits\<close>)
    then show ?case by (simp add: run_def)
  qed
  show ?thesis
    using inv recordScore_in_range[of s task p s']
    by (auto simp: validateScore_def recordScore_def split: if_splits)
qed

theorem C1_score_validator_witness:
  "validateScore coding_task 12 = Inl InvalidScore
   \<and> validateScore coding_task 10 = Inr 10
   \<and> validateScore coding_task 11 = Inl InvalidScore
   \<and> recordScore new_session coding_task 10 =
       Inr (new_session\<lparr>scores := [\<lparr>score_task = ascii ''C1'', awarded = 10,
                                     max_points_at_recording_time = 10\<rparr>]\<rparr>)
   \<and> scores_in_range (scores (run [RecordScore coding_task 12, RecordScore coding_task 10]))"
  using C1_score_validator[of coding_task 10 new_session
      "new_session\<lparr>scores := [\<lparr>score_task = ascii ''C1'', awarded = 10,
                                     max_points_at_recording_time = 10\<rparr>]\<rparr>"
      "[RecordScore coding_task 12, RecordScore coding_task 10]"]
  by (simp add: validateScore_def recordScore_def coding_task_def new_session_def)


section \<open>One model turn at a time\<close>

text \<open>The state machine of the specification keeps at most one stream in flight.\<close>

lemma flight_inv_exec: "flight_inv s \<Longrightarrow> flight_inv (exec s a)"
  by (cases a)
     (auto simp: flight_inv_def exec_def requestModelTurn_def streamTerminated_def
       appendCandidateMessage_def recordScore_def split: sum.splits if_splits)

lemma flight_inv_run: "flight_inv (run ops)"
proof (induction ops rule: rev_induct)
  case Nil
  show ?case by (simp add: run_def new_session_def flight_inv_def)
next
  case (snoc a ops)
  then show ?case using flight_inv_exec[of "run ops" a] by (simp add: run_def)
qed

lemma session_one_stream_in_flight:
  "in_flight (run ops) \<le> 1
   \<and> (in_flight (run ops) = 1 \<longleftrightarrow> lifecycle (run ops) = AwaitingModel)
   \<and> (lifecycle s = AwaitingModel \<longrightarrow> requestModelTurn s = Inl InvalidState)
   \<and> (lifecycle s \<noteq> AwaitingModel \<longrightarrow>
        (\<exists>s'. requestModelTurn s = Inr s' \<and> lifecycle s' = AwaitingModel
           \<and> requestModelTurn s' = Inl InvalidState
           \<and> (\<exists>s''. streamTerminated s' = Inr s'' \<and> lifecycle s'' = Active)))"
  using flight_inv_run[of ops]
  by (auto simp: flight_inv_def requestModelTurn_def streamTerminated_def split: if_splits)

text \<open>
  The front end attempts the same with the flag \<open>streaming\<close>: it is on from the start
  of a turn until the \<open>finally\<close> block, and the send button is disabled while it is on.
\<close>

lemma streaming_apply_event: "streaming (ui (apply_event ev t)) = streaming (ui t)"
  by (simp add: apply_event_def on_token_def on_error_def on_done_def pushMessage_def)

lemma streaming_handle_part:
  "streaming (ui (snd (handle_part parse part t))) = streaming (ui t)"
  by (auto simp: handle_part_def streaming_apply_event split: option.splits sum.splits)

lemma streaming_handle_parts:
  "streaming (ui (snd (handle_parts parse parts t))) = streaming (ui t)"
proof (induction parts arbitrary: t)
  case Nil
  show ?case by simp
next
  case (Cons p ps)
  obtain r t1 where h: "handle_part parse p t = (r, t1)" by (cases "handle_part parse p t")
  with streaming_handle_part[of parse p t] have "streaming (ui t1) = streaming (ui t)" by simp
  with h Cons[of t1] show ?case by (cases r) simp_all
qed

lemma streaming_read_loop:
  "streaming (ui (snd (read_loop parse dec chunks e buf d t))) = streaming (ui t)"
proof (induction chunks arbitrary: buf d t)
  case Nil
  show ?case by (cases e) simp_all
next
  case (Cons v rest)
  obtain x d1 where x: "dec d v = (x, d1)" by (cases "dec d v")
  obtain r t1 where h: "handle_parts parse (butlast (split_blank (buf @ x))) t = (r, t1)"
    by (cases "handle_parts parse (butlast (split_blank (buf @ x))) t")
  with streaming_handle_parts[of parse "butlast (split_blank (buf @ x))" t]
  have "streaming (ui t1) = streaming (ui t)" by simp
  with h x Cons[of "pop_or_empty (split_blank (buf @ x))" d1 t1] show ?case
    by (cases r) simp_all
qed

lemma streaming_before_finally:
  "streaming (ui (catch_block (try_block parse dec d0 resp (begin_turn a))))"
proof -
  let ?r = "try_block parse dec d0 resp (begin_turn a)"
  have "streaming (ui (snd ?r))"
    by (cases resp) (simp_all add: try_block_def streaming_read_loop, simp_all add: begin_turn_def)
  then show ?thesis
    by (cases ?r) (auto simp: catch_block_def pushMessage_def split: option.splits)
qed

lemma streaming_streamModel:
  "\<not> no_session sid \<Longrightarrow> \<not> streaming (streamModel parse dec d0 sid resp a)"
  by (simp add: streamModel_def streaming_finally_block)

lemma send_disabled_during_turn:
  "\<not> send_enabled (ui (catch_block (try_block parse dec d0 resp (begin_turn a))))"
  using streaming_before_finally[of parse dec d0 resp a] by (simp add: send_enabled_def)

text \<open>
  C6: at most one model-turn stream is to be in flight per session, a second call
  failing while the first is awaited. The front end misses this. \<open>streamModel\<close> does not
  look at \<open>streaming\<close>, and the start button is disabled by \<open>loading\<close> alone. In the
  state of session 7 with a model turn in flight (\<open>streaming\<close> on, send button
  disabled), the start button is enabled; \<open>startSession\<close> then calls \<open>streamModel\<close>
  with the \<open>sessionId\<close> 7 its closure captured, a second stream for session 7 is
  consumed and its answer stored; and its \<open>finally\<close> block switches \<open>streaming\<close> off,
  which enables the send button while the first stream is still in flight.
\<close>

theorem C6_second_stream_in_flight:
  "streaming (ui (begin_turn sample_app))
   \<and> \<not> send_enabled (ui (begin_turn sample_app))
   \<and> start_enabled (ui (begin_turn sample_app))
   \<and> sessionId (ui (begin_turn sample_app)) = Some (ascii ''7'')
   \<and> messages (streamModel sample_parse ascii_decoder () (Some (ascii ''7''))
        (Body sample_chunks EndOfStream) (ui (begin_turn sample_app)))
      = messages sample_app @ [model_message (ascii ''Hi!'')]
   \<and> messages (startSession sample_parse ascii_decoder () (SessionCreated (ascii ''8''))
        (Body sample_chunks EndOfStream) (ui (begin_turn sample_app)))
      = [system_message session_created_text, model_message (ascii ''Hi!'')]
   \<and> send_enabled (startSession sample_parse ascii_decoder () (SessionCreated (ascii ''8''))
        (Body sample_chunks EndOfStream) (ui (begin_turn sample_app)))"
proof -
  have sid: "\<not> no_session (Some [55])" by (simp add: no_session_def)
  show ?thesis
    by (simp add: sample_app_def startSession_def not_selected_def ascii_def no_session_def
        send_enabled_def start_enabled_def
        streamModel_well_formed[OF sample_well_formed sid] sample_events
        apply_events_def apply_event_def on_token_def on_error_def on_done_def
        token_event_def done_event_def tool_call_event_def begin_turn_def finally_block_def
        pushMessage_def)
qed


section \<open>Chained tool calls are bounded\<close>

lemma tool_calls_bounded:
  "length (filter is_tool_call (model_turn n model dispatch dlg)) \<le> n"
proof (induction n arbitrary: dlg)
  case 0
  show ?case by (cases "model dlg") (simp_all add: filter_empty_conv comp_def)
next
  case (Suc n)
  show ?case
  proof (cases "model dlg")
    case (ToolRequest toks tool args)
    have "filter is_tool_call (map TokenEv toks) = []" by (simp add: filter_empty_conv)
    with ToolRequest Suc[of "dlg @ [dispatch tool args]"] show ?thesis by simp
  qed (simp_all add: filter_empty_conv)
qed

lemma turn_ends_once:
  "\<exists>pre e. model_turn n model dispatch dlg = pre @ [e] \<and> is_terminal e
     \<and> (\<forall>x \<in> set pre. \<not> is_terminal x)"
proof (induction n arbitrary: dlg)
  case 0
  show ?case by (cases "model dlg") auto
next
  case (Suc n)
  show ?case
  proof (cases "model dlg")
    case (ToolRequest toks tool args)
    from Suc[of "dlg @ [dispatch tool args]"] obtain pre e where
      pe: "model_turn n model dispatch (dlg @ [dispatch tool args]) = pre @ [e]"
        "is_terminal e" "\<forall>x \<in> set pre. \<not> is_terminal x" by blast
    have "model_turn (Suc n) model dispatch dlg
        = (map TokenEv toks @ ToolCallEv tool args # pre) @ [e]"
      using ToolRequest pe(1) by simp
    moreover have "\<forall>x \<in> set (map TokenEv toks @ ToolCallEv tool args # pre). \<not> is_terminal x"
      using pe(3) by auto
    ultimately show ?thesis using pe(2) by blast
  qed auto
qed

lemma greedy_turn:
  assumes "\<And>dlg. \<exists>toks tool args. model dlg = ToolRequest toks tool args"
  shows "length (filter is_tool_call (model_turn n model dispatch dlg)) = n
       \<and> last (model_turn n model dispatch dlg) = ErrorEv cap_exceeded"
proof (induction n arbitrary: dlg)
  case 0
  from assms[of dlg] show ?case by (auto simp: filter_empty_conv)
next
  case (Suc n)
  from assms[of dlg] obtain toks tool args where m: "model dlg = ToolRequest toks tool args"
    by blast
  have ne: "model_turn n model dispatch d' \<noteq> []" for d'
    using turn_ends_once[of n model dispatch d'] by auto
  have "filter is_tool_call (map TokenEv toks) = []" by (simp add: filter_empty_conv)
  with m Suc[of "dlg @ [dispatch tool args]"] ne show ?case by simp
qed

text \<open>
  C7: a model turn with a cap on chained tool calls emits at most that many \<open>tool_call\<close>
  events, whatever the model answers; its events end with exactly one terminal event
  (\<open>done\<close> or \<open>error\<close>), the last one; and against a model that asks for a tool on
  every completion the turn makes exactly as many tool calls as the cap allows and ends
  with the \<open>error\<close> event of the exceeded cap.
\<close>

theorem C7_tool_calls_bounded:
  "length (filter is_tool_call (model_turn cap model dispatch dlg)) \<le> cap
   \<and> (\<exists>pre e. model_turn cap model dispatch dlg = pre @ [e] \<and> is_terminal e
        \<and> (\<forall>x \<in> set pre. \<not> is_terminal x))
   \<and> ((\<forall>dlg. \<exists>toks tool args. model dlg = ToolRequest toks tool args) \<longrightarrow>
        length (filter is_tool_call (model_turn cap model dispatch dlg)) = cap
        \<and> last (model_turn cap model dispatch dlg) = ErrorEv cap_exceeded)"
  using tool_calls_bounded[of cap model dispatch dlg] turn_ends_once[of cap model dispatch dlg]
    greedy_turn[of model cap dispatch dlg]
  by blast

theorem C7_tool_calls_bounded_witness:
  "(\<forall>dlg. \<exists>toks tool args. greedy_model dlg = ToolRequest toks tool args)
   \<and> model_turn 2 greedy_model echo_dispatch [ascii ''hello''] =
       [ToolCallEv (ascii ''web_search'') (ascii ''{}''),
        ToolCallEv (ascii ''web_search'') (ascii ''{}''),
        ErrorEv cap_exceeded]
   \<and> length (filter is_tool_call
        (model_turn 2 greedy_model echo_dispatch [ascii ''hello''])) = 2
   \<and> last (model_turn 2 greedy_model echo_dispatch [ascii ''hello'']) = ErrorEv cap_exceeded"
proof -
  have g: "\<forall>dlg. \<exists>toks tool args. greedy_model dlg = ToolRequest toks tool args"
    by (simp add: greedy_model_def)
  have "model_turn 2 greedy_model echo_dispatch [ascii ''hello''] =
       [ToolCallEv (ascii ''web_search'') (ascii ''{}''),
        ToolCallEv (ascii ''web_search'') (ascii ''{}''),
        ErrorEv cap_exceeded]"
    by (simp add: numeral_2_eq_2 greedy_model_def)
  with C7_tool_calls_bounded[of 2 greedy_model echo_dispatch "[ascii ''hello'']"] g
  show ?thesis by blast
qed


section \<open>The retrieval index\<close>

text \<open>The sum of products is bounded by the sums of squares (Cauchy and Schwarz).\<close>

lemma sum_products_square:
  fixes a b :: "'a \<Rightarrow> real"
  assumes "finite A"
  shows "(\<Sum>i\<in>A. a i * b i)\<^sup>2 \<le> (\<Sum>i\<in>A. (a i)\<^sup>2) * (\<Sum>i\<in>A. (b i)\<^sup>2)"
proof -
  let ?P = "\<Sum>i\<in>A. (a i)\<^sup>2" and ?Q = "\<Sum>i\<in>A. (b i)\<^sup>2" and ?C = "\<Sum>i\<in>A. a i * b i"
  have "0 \<le> (\<Sum>i\<in>A. \<Sum>j\<in>A. (a i * b j - a j * b i)\<^sup>2)"
    by (intro sum_nonneg) simp
  also have "(\<Sum>i\<in>A. \<Sum>j\<in>A. (a i * b j - a j * b i)\<^sup>2)
      = (\<Sum>i\<in>A. \<Sum>j\<in>A. (a i)\<^sup>2 * (b j)\<^sup>2) - 2 * (\<Sum>i\<in>A. \<Sum>j\<in>A. (a i * b i) * (a j * b j))
        + (\<Sum>i\<in>A. \<Sum>j\<in>A. (b i)\<^sup>2 * (a j)\<^sup>2)"
    by (simp add: power2_diff power_mult_distrib sum.distrib sum_subtractf sum_distrib_left
        mult_ac)
  also have "(\<Sum>i\<in>A. \<Sum>j\<in>A. (a i)\<^sup>2 * (b j)\<^sup>2) = ?P * ?Q" by (simp add: sum_product)
  also have "(\<Sum>i\<in>A. \<Sum>j\<in>A. (b i)\<^sup>2 * (a j)\<^sup>2) = ?Q * ?P" by (simp add: sum_product)
  also have "(\<Sum>i\<in>A. \<Sum>j\<in>A. (a i * b i) * (a j * b j)) = ?C * ?C" by (simp add: sum_product)
  finally have "0 \<le> 2 * (?P * ?Q) - 2 * (?C * ?C)" by (simp add: mult.commute)
  then show ?thesis by (simp add: power2_eq_square)
qed

lemma freq_nonneg: "0 \<le> freq ts w" by (simp add: freq_def)

lemma freq_outside: "w \<notin> set ts \<Longrightarrow> freq ts w = 0"
  by (simp add: freq_def count_list_0_iff)

lemma dot_self: "dot d d = (\<Sum>w\<in>set d. (freq d w)\<^sup>2)"
  by (simp add: dot_def power2_eq_square)

lemma dot_self_nonneg: "0 \<le> dot d d"
  by (simp add: dot_self sum_nonneg)

lemma dot_nonneg: "0 \<le> dot q d"
  by (simp add: dot_def sum_nonneg freq_nonneg)

lemma other_squares_bound: "(\<Sum>w\<in>set q. (freq d w)\<^sup>2) \<le> dot d d"
proof -
  have "(\<Sum>w\<in>set q. (freq d w)\<^sup>2) = (\<Sum>w\<in>set q \<inter> set d. (freq d w)\<^sup>2)"
    by (rule sum.mono_neutral_right) (auto simp: freq_outside)
  also have "\<dots> \<le> (\<Sum>w\<in>set d. (freq d w)\<^sup>2)"
    by (rule sum_mono2) auto
  finally show ?thesis by (simp add: dot_self)
qed

lemma dot_bound: "dot q d \<le> sqrt (dot q q) * sqrt (dot d d)"
proof -
  have "(dot q d)\<^sup>2 \<le> dot q q * (\<Sum>w\<in>set q. (freq d w)\<^sup>2)"
    unfolding dot_self unfolding dot_def by (rule sum_products_square) simp
  also have "\<dots> \<le> dot q q * dot d d"
    by (rule mult_left_mono[OF other_squares_bound dot_self_nonneg])
  finally have "dot q d \<le> sqrt (dot q q * dot d d)" by (rule real_le_rsqrt)
  then show ?thesis by (simp add: real_sqrt_mult)
qed

lemma cosine_le_one: "cosine q d \<le> 1"
proof (cases "dot q q = 0 \<or> dot d d = 0")
  case True
  then show ?thesis by (simp add: cosine_def)
next
  case False
  with dot_self_nonneg[of q] dot_self_nonneg[of d]
  have "0 < sqrt (dot q q) * sqrt (dot d d)" by simp
  with False dot_bound[of q d] show ?thesis by (simp add: cosine_def)
qed

lemma dot_self_pos: "q \<noteq> [] \<Longrightarrow> 0 < dot q q"
proof -
  assume "q \<noteq> []"
  then obtain w where w: "w \<in> set q" by (cases q) auto
  then have "0 < count_list q w" using count_list_0_iff[of q w] by auto
  then have "0 < (freq q w)\<^sup>2" by (simp add: freq_def)
  also have "(freq q w)\<^sup>2 \<le> (\<Sum>w\<in>set q. (freq q w)\<^sup>2)"
    using w by (intro member_le_sum) auto
  finally show ?thesis by (simp add: dot_self)
qed

lemma cosine_self: "q \<noteq> [] \<Longrightarrow> cosine q q = 1"
  using dot_self_pos[of q] by (simp add: cosine_def)

lemma hd_filter_first:
  "i < length xs \<Longrightarrow> P (xs ! i) \<Longrightarrow> \<forall>j<i. \<not> P (xs ! j) \<Longrightarrow> hd (filter P xs) = xs ! i"
proof (induction xs arbitrary: i)
  case Nil
  then show ?case by simp
next
  case (Cons x xs)
  show ?case
  proof (cases i)
    case 0
    with Cons.prems show ?thesis by simp
  next
    case (Suc n)
    with Cons.prems have "\<not> P x" by auto
    moreover have "\<forall>j<n. \<not> P (xs ! j)"
    proof (intro allI impI)
      fix j assume "j < n"
      then have "Suc j < i" using Suc by simp
      with Cons.prems(3) have "\<not> P ((x # xs) ! Suc j)" by blast
      then show "\<not> P (xs ! j)" by simp
    qed
    then have "hd (filter P xs) = xs ! n"
      using Cons.IH[of n] Cons.prems(1,2) Suc by simp
    ultimately show ?thesis using Suc by simp
  qed
qed

lemma sorted_hd_least: "sorted (map f xs) \<Longrightarrow> x \<in> set xs \<Longrightarrow> f (hd xs) \<le> f x"
  by (cases xs) auto

lemma ranking_sorted: "sorted (map (\<lambda>r. - snd r) (ranking corpus q))"
  by (simp add: ranking_def)

lemma search_sorted: "sorted (map (\<lambda>r. - snd r) (search corpus q k))"
  using ranking_sorted[of corpus q] by (simp add: search_def take_map[symmetric])

lemma ranking_ties:
  "filter (\<lambda>r. snd r = v) (ranking corpus q) = filter (\<lambda>r. snd r = v) (scored corpus q)"
proof -
  have "filter (\<lambda>r. - snd r = - v) (ranking corpus q)
      = filter (\<lambda>r. - snd r = - v) (scored corpus q)"
    unfolding ranking_def by (rule sort_key_stable)
  then show ?thesis by simp
qed

lemma identical_document_first:
  assumes i: "i < length corpus" and same: "tokens (corpus ! i) = q" and q: "q \<noteq> []"
    and k: "0 < k"
  shows "snd (hd (search corpus q k)) = 1"
    and "(document_id (corpus ! i), 1) \<in> set (ranking corpus q)"
    and "\<forall>j<i. cosine q (tokens (corpus ! j)) \<noteq> 1 \<Longrightarrow>
         hd (search corpus q k) = (document_id (corpus ! i), 1)"
proof -
  let ?S = "scored corpus q" and ?R = "ranking corpus q"
  have Si: "?S ! i = (document_id (corpus ! i), 1)"
    using i same q by (simp add: scored_def cosine_self)
  have len: "length ?S = length corpus" by (simp add: scored_def)
  have setR: "set ?R = set ?S" by (simp add: ranking_def)
  from Si i len have inS: "(document_id (corpus ! i), 1) \<in> set ?S"
    by (metis nth_mem)
  then show inR: "(document_id (corpus ! i), 1) \<in> set ?R" by (simp add: setR)
  then have ne: "?R \<noteq> []" by auto
  have hdk: "hd (search corpus q k) = hd ?R"
    using k ne by (cases ?R; cases k) (simp_all add: search_def)
  have "hd ?R \<in> set ?S" using ne setR by (metis hd_in_set)
  then have le1: "snd (hd ?R) \<le> 1" by (auto simp: scored_def cosine_le_one)
  have "- snd (hd ?R) \<le> - snd (document_id (corpus ! i), 1::real)"
    by (rule sorted_hd_least[OF ranking_sorted inR])
  with le1 have top: "snd (hd ?R) = 1" by simp
  then show "snd (hd (search corpus q k)) = 1" by (simp add: hdk)
  assume first: "\<forall>j<i. cosine q (tokens (corpus ! j)) \<noteq> 1"
  have "filter (\<lambda>r. snd r = 1) ?R = hd ?R # filter (\<lambda>r. snd r = 1) (tl ?R)"
    using ne top by (cases ?R) auto
  then have "hd ?R = hd (filter (\<lambda>r. snd r = 1) ?R)" by simp
  also have "\<dots> = hd (filter (\<lambda>r. snd r = 1) ?S)" by (simp add: ranking_ties)
  also have "\<dots> = ?S ! i"
  proof (rule hd_filter_first)
    show "i < length ?S" using i len by simp
    show "snd (?S ! i) = 1" by (simp add: Si)
    show "\<forall>j<i. snd (?S ! j) \<noteq> 1" using first i by (simp add: scored_def)
  qed
  finally show "hd (search corpus q k) = (document_id (corpus ! i), 1)" by (simp add: hdk Si)
qed

lemma search_descending: "sorted_wrt (\<lambda>a b. snd b \<le> snd a) (search corpus q k)"
  using search_sorted[of corpus q k] by (simp add: sorted_map)

lemma search_ties:
  "prefix (filter (\<lambda>r. snd r = v) (search corpus q k))
          (filter (\<lambda>r. snd r = v) (scored corpus q))"
proof -
  have "prefix (search corpus q k) (ranking corpus q)"
    by (simp add: search_def take_is_prefix)
  then have "prefix (filter (\<lambda>r. snd r = v) (search corpus q k))
                    (filter (\<lambda>r. snd r = v) (ranking corpus q))"
    by (rule filter_mono_prefix)
  then show ?thesis by (simp add: ranking_ties)
qed

text \<open>
  C8, as stated, ranks first any document identical to the query. With two documents of
  the same text in the corpus, the rule of the same section (ties go to the document
  added first) ranks the second of them second.
\<close>

theorem C8_twin_documents_counterexample:
  "tokens (twin_corpus ! 1) = [ascii ''sql'']
   \<and> search twin_corpus [ascii ''sql''] 2 = [(1, 1), (2, 1)]
   \<and> hd (search twin_corpus [ascii ''sql''] 2) \<noteq> (document_id (twin_corpus ! 1), 1)"
  by (simp add: search_def ranking_def scored_def twin_corpus_def cosine_def dot_def freq_def
      ascii_def)

text \<open>
  C8 (amended): searching a corpus without documents returns the empty sequence; the
  results are in descending order of cosine similarity, and results of equal similarity
  are in insertion order; and when the corpus holds a document identical to a non-empty
  query and at least one result is asked for, the first result has similarity \<open>1\<close>,
  that document is in the ranking with similarity \<open>1\<close>, and it is the first result
  unless a document added before it has similarity \<open>1\<close> as well.
\<close>

theorem C8_retrieval_search:
  "search [] q k = []
   \<and> sorted_wrt (\<lambda>a b. snd b \<le> snd a) (search corpus q k)
   \<and> prefix (filter (\<lambda>r. snd r = v) (search corpus q k))
             (filter (\<lambda>r. snd r = v) (scored corpus q))
   \<and> (i < length corpus \<and> tokens (corpus ! i) = q \<and> q \<noteq> [] \<and> 0 < k \<longrightarrow>
        snd (hd (search corpus q k)) = 1
        \<and> (document_id (corpus ! i), 1) \<in> set (ranking corpus q)
        \<and> ((\<forall>j<i. cosine q (tokens (corpus ! j)) \<noteq> 1) \<longrightarrow>
             hd (search corpus q k) = (document_id (corpus ! i), 1)))"
proof -
  have "search [] q k = []" by (simp add: search_def ranking_def scored_def)
  then show ?thesis
    using search_descending[of corpus q k] search_ties[of v corpus q k]
      identical_document_first[of i corpus q k]
    by blast
qed

theorem C8_retrieval_search_witness:
  "(1::nat) < length mixed_corpus \<and> tokens (mixed_corpus ! 1) = [ascii ''sql'']
   \<and> [ascii ''sql''] \<noteq> [] \<and> (0::nat) < 1
   \<and> cosine [ascii ''sql''] (tokens (mixed_corpus ! 0)) \<noteq> 1
   \<and> hd (search mixed_corpus [ascii ''sql''] 1) = (document_id (mixed_corpus ! 1), 1)
   \<and> search mixed_corpus [ascii ''sql''] 2 = [(2, 1), (1, 0)]"
proof -
  have a: "(1::nat) < length mixed_corpus" "tokens (mixed_corpus ! 1) = [ascii ''sql'']"
    by (simp_all add: mixed_corpus_def)
  have b: "\<forall>j<1. cosine [ascii ''sql''] (tokens (mixed_corpus ! j)) \<noteq> 1"
    by (simp add: mixed_corpus_def cosine_def dot_def freq_def ascii_def)
  have c: "search mixed_corpus [ascii ''sql''] 2 = [(2, 1), (1, 0)]"
    by (simp add: search_def ranking_def scored_def mixed_corpus_def cosine_def dot_def
        freq_def ascii_def)
  have b0: "cosine [ascii ''sql''] (tokens (mixed_corpus ! 0)) \<noteq> 1"
    using b by simp
  from C8_retrieval_search[of "[ascii ''sql'']" 1 mixed_corpus _ 1] a b b0 c
  show ?thesis by simp
qed


section \<open>Task navigation: the index and the task list\<close>

lemma tasks_of_101: "orderedTasks sample_scenarios (Some 101) =
     [sample_task (ascii ''T1'') Theory 5, sample_task (ascii ''C1'') Coding 10,
      sample_task (ascii ''SQL1'') Sql 8]"
  by (simp add: orderedTasks_def selectedScenarioObj_def sample_scenarios_def
      sample_scenario_def)

lemma tasks_of_102: "orderedTasks sample_scenarios (Some 102) =
     [sample_task (ascii ''T-metrics'') Theory 5, sample_task (ascii ''SQL-ab'') Sql 8]"
  by (simp add: orderedTasks_def selectedScenarioObj_def sample_scenarios_def
      sample_scenario_def)

lemma tasks_of_none: "orderedTasks sample_scenarios None = []"
  by (simp add: orderedTasks_def selectedScenarioObj_def)

text \<open>
  C10, as stated, keeps the index within \<open>0 \<le> i \<le> max(0, length - 1)\<close> always and the
  lookup inside the task list. Three inputs show otherwise. With no scenario selected
  the list is empty, the index \<open>0\<close> is within the bound, and \<open>orderedTasks[0]\<close> reads
  past the end (the program turns the \<open>undefined\<close> into \<open>null\<close>). Two calls of
  \<open>goNextTask\<close> from the render of index \<open>1\<close> of three tasks both pass the test on the
  captured index and leave the index at \<open>3\<close>; two calls of \<open>goPrevTask\<close> from that
  render leave it at \<open>-1\<close>. And at index \<open>2\<close> of the three tasks of scenario 101,
  selecting scenario 102 with its two tasks leaves the index as it is, past the end of a
  list that is not empty.
\<close>

theorem C10_index_out_of_bounds_counterexample:
  "orderedTasks sample_scenarios None = []
   \<and> index_in_bounds (orderedTasks sample_scenarios None) 0
   \<and> \<not> lookup_inside (orderedTasks sample_scenarios None) 0
   \<and> currentTask (orderedTasks sample_scenarios None) 0 = None
   \<and> index_in_bounds (orderedTasks sample_scenarios (Some 101)) 1
   \<and> goNextTask (orderedTasks sample_scenarios (Some 101)) 1
        (goNextTask (orderedTasks sample_scenarios (Some 101)) 1 1) = 3
   \<and> \<not> index_in_bounds (orderedTasks sample_scenarios (Some 101)) 3
   \<and> goPrevTask 1 (goPrevTask 1 1) = - 1
   \<and> \<not> index_in_bounds (orderedTasks sample_scenarios (Some 101)) (- 1)
   \<and> index_in_bounds (orderedTasks sample_scenarios (Some 101)) 2
   \<and> orderedTasks sample_scenarios (Some 102) \<noteq> []
   \<and> \<not> lookup_inside (orderedTasks sample_scenarios (Some 102)) 2
   \<and> currentTask (orderedTasks sample_scenarios (Some 102)) 2 = None"
  by (simp add: tasks_of_101 tasks_of_102 tasks_of_none index_in_bounds_def lookup_inside_def currentTask_def
      goNextTask_def goPrevTask_def)

text \<open>
  C10 (amended): the initial index \<open>0\<close> is within the bound
  \<open>0 \<le> i \<le> max(0, length - 1)\<close>; a call of \<open>goNextTask\<close> or \<open>goPrevTask\<close> made from
  the render of the current index, on the task list of that render, preserves the bound
  for that list; a handler made at index \<open>0\<close> (\<open>goPrevTask\<close>) or at the last task
  (\<open>goNextTask\<close>) changes nothing; for a task list that is not empty an index within its
  bound is a position of the list; and the lookup returns the task at the index when the
  index is a position of the list, and \<open>null\<close> otherwise.
\<close>

theorem C10_task_index_bounds:
  "index_in_bounds ts 0
   \<and> (index_in_bounds ts i \<longrightarrow>
        index_in_bounds ts (goNextTask ts i i) \<and> index_in_bounds ts (goPrevTask i i))
   \<and> goPrevTask 0 j = j
   \<and> goNextTask ts (int (length ts) - 1) j = j
   \<and> (index_in_bounds ts i \<and> ts \<noteq> [] \<longrightarrow>
        lookup_inside ts i \<and> currentTask ts i = Some (ts ! nat i))
   \<and> (lookup_inside ts j \<longrightarrow> currentTask ts j = Some (ts ! nat j))
   \<and> (\<not> lookup_inside ts j \<longrightarrow> currentTask ts j = None)"
  by (auto simp: index_in_bounds_def goNextTask_def goPrevTask_def lookup_inside_def
      currentTask_def max_def split: if_splits)

theorem C10_task_index_bounds_witness:
  "index_in_bounds sample_tasks 1 \<and> sample_tasks \<noteq> []
   \<and> index_in_bounds sample_tasks (goNextTask sample_tasks 1 1)
   \<and> index_in_bounds sample_tasks (goPrevTask 1 1)
   \<and> goNextTask sample_tasks 1 1 = 1 \<and> goPrevTask 1 1 = 0
   \<and> lookup_inside sample_tasks 1
   \<and> currentTask sample_tasks 1 = Some (sample_task (ascii ''C1'') Coding 10)
   \<and> \<not> lookup_inside sample_tasks 2
   \<and> currentTask sample_tasks 2 = None"
  using C10_task_index_bounds [of sample_tasks 1 1] C10_task_index_bounds [of sample_tasks 1 2]
  by (simp add: index_in_bounds_def goNextTask_def goPrevTask_def sample_tasks_def
      lookup_inside_def)


end
